theory Spec2Isabelle
  imports Main
begin

section \<open>Text diff engine (monaco-editor.component.ts, applyChangesWithAnimation)\<close>

text \<open>
  A JavaScript string is a finite sequence of code units; the diff only compares code
  units for equality and reads lengths, so it is modelled over lists of any element type.
\<close>

text \<open>
  Lines 154-157:
  \<^verbatim>\<open>let prefixLen = 0;
  while (prefixLen < oldContent.length && prefixLen < newContent.length
         && oldContent[prefixLen] === newContent[prefixLen]) prefixLen++;\<close>
  The loop is the recursive function below, started at 0.
\<close>

function prefix_loop :: "'a list \<Rightarrow> 'a list \<Rightarrow> nat \<Rightarrow> nat" where
  "prefix_loop oldContent newContent prefixLen =
     (if prefixLen < length oldContent \<and> prefixLen < length newContent
         \<and> oldContent ! prefixLen = newContent ! prefixLen
      then prefix_loop oldContent newContent (Suc prefixLen)
      else prefixLen)"
  by pat_completeness auto
termination
  by (relation "measure (\<lambda>(oldContent, newContent, prefixLen). length oldContent - prefixLen)") auto

declare prefix_loop.simps [simp del]

text \<open>
  Lines 159-162:
  \<^verbatim>\<open>let suffixLen = 0;
  while (suffixLen < oldContent.length - prefixLen && suffixLen < newContent.length - prefixLen
         && oldContent[oldContent.length - 1 - suffixLen]
            === newContent[newContent.length - 1 - suffixLen]) suffixLen++;\<close>
  The two guards keep every index non-negative, so natural-number subtraction never
  truncates where an element is read.
\<close>

function suffix_loop :: "'a list \<Rightarrow> 'a list \<Rightarrow> nat \<Rightarrow> nat \<Rightarrow> nat" where
  "suffix_loop oldContent newContent prefixLen suffixLen =
     (if suffixLen < length oldContent - prefixLen \<and> suffixLen < length newContent - prefixLen
         \<and> oldContent ! (length oldContent - 1 - suffixLen)
           = newContent ! (length newContent - 1 - suffixLen)
      then suffix_loop oldContent newContent prefixLen (Suc suffixLen)
      else suffixLen)"
  by pat_completeness auto
termination
  by (relation "measure (\<lambda>(oldContent, newContent, prefixLen, suffixLen).
        length oldContent - prefixLen - suffixLen)") auto

declare suffix_loop.simps [simp del]

text \<open>
  \<^verbatim>\<open>String.prototype.substring(start, end)\<close>: both arguments are clamped to the
  length of the string and swapped when start exceeds end.
\<close>

definition substring :: "'a list \<Rightarrow> nat \<Rightarrow> nat \<Rightarrow> 'a list" where
  "substring s start end =
     (let a = min start (length s); b = min end (length s);
          lo = min a b; hi = max a b
      in take (hi - lo) (drop lo s))"

text \<open>
  The three values the applier computes from the old and the new text:
  \<open>prefixLen\<close>, \<open>suffixLen\<close> and \<open>textToInsert\<close> (line 169).
\<close>

definition diff :: "'a list \<Rightarrow> 'a list \<Rightarrow> nat \<times> nat \<times> 'a list" where
  "diff oldContent newContent =
     (let prefixLen = prefix_loop oldContent newContent 0;
          suffixLen = suffix_loop oldContent newContent prefixLen 0;
          textToInsert = substring newContent prefixLen (length newContent - suffixLen)
      in (prefixLen, suffixLen, textToInsert))"

text \<open>
  Replacing the middle segment \<open>old[p .. len(old) - s]\<close> of the old text (the range
  from \<open>startPos\<close> to \<open>endPos\<close>, lines 165-168) by a replacement text.
\<close>

definition replace_middle :: "'a list \<Rightarrow> nat \<Rightarrow> nat \<Rightarrow> 'a list \<Rightarrow> 'a list" where
  "replace_middle oldContent prefixLen suffixLen textToInsert =
     take prefixLen oldContent @ textToInsert @ drop (length oldContent - suffixLen) oldContent"

section \<open>Data model of the application component\<close>

text \<open>
  \<^verbatim>\<open>interface File { name: string; content: string; language: EditorType; }\<close>
  The language of a file is computed from its name at run time
  (\<^verbatim>\<open>name.split('.').pop() as EditorType\<close>), so it is kept as a string. Texts are
  lists of characters, a character standing for one code unit (those up to 0xFF); the
  program only compares, copies and concatenates them.
\<close>

record File =
  name :: string
  content :: string
  language :: string

text \<open>A thrown value: an instance of \<^verbatim>\<open>Error\<close> with its message, or anything else.\<close>

datatype thrown = JsError string | NonError

text \<open>
  Values that cross the message channel between the preview and the host. Numbers are
  kept by their decimal text; \<open>JErrorObj message stack\<close> is an object for which
  \<^verbatim>\<open>instanceof Error\<close> holds, with the values of its two properties;
  \<open>JOther\<close> stands for every remaining value (functions, symbols, cyclic objects).
\<close>

datatype js_value =
    JUndefined
  | JNull
  | JBool bool
  | JNumber string
  | JBigInt int
  | JString string
  | JArray "js_value list"
  | JObject "(string \<times> js_value) list"
  | JErrorObj js_value js_value
  | JOther nat

text \<open>Windows are told apart by identity only; \<open>None\<close> is \<^verbatim>\<open>null\<close>.\<close>

type_synonym window_ref = "nat option"

record message_event =
  source :: window_ref
  data :: js_value

text \<open>
  The text buffer of the editing widget, an external library: its full text, the offset
  of the caret, the line end the buffer uses (\<^verbatim>\<open>\n\<close> or \<^verbatim>\<open>\r\n\<close>) and the default
  line end of the widget's options, which depends on the platform. Positions are kept as
  offsets into the text (the widget's \<^verbatim>\<open>getPositionAt\<close> maps an offset to a line and
  column one to one).
\<close>

datatype eol = LF | CRLF

record editor_buffer =
  buf_text :: string
  caret :: nat
  buf_eol :: eol
  default_eol :: eol

text \<open>
  The state of the editor component that \<^verbatim>\<open>applyChangesWithAnimation\<close> reads and
  writes: \<^verbatim>\<open>private editor?: any\<close> and \<^verbatim>\<open>private isAnimating = false\<close>.
\<close>

record monaco_component =
  editor :: "editor_buffer option"
  isAnimating :: bool

text \<open>
  The signals and fields of the application component. \<open>previewContentWindow\<close> is
  \<^verbatim>\<open>this.previewIframe.nativeElement.contentWindow\<close>; \<open>animated\<close> is a
  history variable that lists, in order, the targets of the calls of
  \<^verbatim>\<open>applyChangesWithAnimation\<close> made by \<^verbatim>\<open>askAI\<close>.
\<close>

record app_state =
  files :: "File list"
  openFiles :: "File list"
  activeFile :: "File option"
  isCreatingFile :: bool
  newFileName :: string
  iframeSrcDoc :: string
  consoleLogs :: "js_value list"
  previewContentWindow :: window_ref
  aiPrompt :: string
  isAiLoading :: bool
  isAiApplyingEdits :: bool
  aiExplanation :: string
  aiError :: string
  selectedModel :: string
  editorComponent :: "monaco_component option"
  animated :: "string list"

section \<open>File management (app component, lines 329-437)\<close>

definition SUPPORTED_EXTENSIONS :: "string list" where
  "SUPPORTED_EXTENSIONS =
     [''html'', ''css'', ''js'', ''ts'', ''json'', ''md'', ''scss'', ''xml'', ''svg'', ''txt'', ''yaml'']"

text \<open>
  \<^verbatim>\<open>new RegExp(`\\.(${SUPPORTED_EXTENSIONS.join('|')})$`)\<close> matches a name exactly
  when the name ends with a dot followed by one of the extensions.
\<close>

definition ends_with :: "string \<Rightarrow> string \<Rightarrow> bool" where
  "ends_with s suf = (length suf \<le> length s \<and> drop (length s - length suf) s = suf)"

definition matches_SUPPORTED_EXTENSIONS_REGEX :: "string \<Rightarrow> bool" where
  "matches_SUPPORTED_EXTENSIONS_REGEX fileName =
     list_ex (\<lambda>ext. ends_with fileName (CHR ''.'' # ext)) SUPPORTED_EXTENSIONS"

text \<open>\<^verbatim>\<open>name.split('.').pop()\<close>: the part after the last dot, the whole name when it has none.\<close>

definition split_dot_pop :: "string \<Rightarrow> string" where
  "split_dot_pop fileName = rev (takeWhile (\<lambda>c. c \<noteq> CHR ''.'') (rev fileName))"

text \<open>
  \<^verbatim>\<open>String.prototype.trim\<close> removes white space at both ends; on the characters of
  this model these are space, tab, line feed, vertical tab, form feed, carriage return
  and the no-break space.
\<close>

definition is_white_space :: "char \<Rightarrow> bool" where
  "is_white_space c =
     (c = CHR '' '' \<or> c = CHR 0x09 \<or> c = CHR 0x0A \<or> c = CHR 0x0B \<or> c = CHR 0x0C \<or> c = CHR 0x0D
      \<or> c = CHR 0xA0)"

definition trim :: "string \<Rightarrow> string" where
  "trim s = rev (dropWhile is_white_space (rev (dropWhile is_white_space s)))"

text \<open>\<^verbatim>\<open>Array.prototype.findIndex\<close>, with \<open>None\<close> for the result -1.\<close>

fun findIndex :: "('a \<Rightarrow> bool) \<Rightarrow> 'a list \<Rightarrow> nat option" where
  "findIndex P [] = None"
| "findIndex P (x # xs) =
     (if P x then Some 0 else map_option Suc (findIndex P xs))"

definition updateFileContent :: "string \<Rightarrow> string \<Rightarrow> app_state \<Rightarrow> app_state" where
  "updateFileContent fileName newContent st =
     st\<lparr>files := map (\<lambda>f. if name f = fileName then f\<lparr>content := newContent\<rparr> else f) (files st)\<rparr>"

definition updateActiveFileContent :: "string \<Rightarrow> app_state \<Rightarrow> app_state" where
  "updateActiveFileContent newContent st =
     (case activeFile st of
        Some active \<Rightarrow> updateFileContent (name active) newContent st
      | None \<Rightarrow> st)"

definition setActiveFile :: "File \<Rightarrow> app_state \<Rightarrow> app_state" where
  "setActiveFile f st =
     (let st1 = (if \<not> list_ex (\<lambda>g. name g = name f) (openFiles st)
                 then st\<lparr>openFiles := openFiles st @ [f]\<rparr> else st)
      in st1\<lparr>activeFile := Some f\<rparr>)"

text \<open>
  \<^verbatim>\<open>closeFile(fileToClose, event)\<close>; the event is only asked to stop propagating.
  \<^verbatim>\<open>this.activeFile()?.name === fileToClose.name\<close> is false when there is no active
  file.
\<close>

definition closeFile :: "File \<Rightarrow> app_state \<Rightarrow> app_state" where
  "closeFile fileToClose st =
     (case findIndex (\<lambda>f. name f = name fileToClose) (openFiles st) of
        None \<Rightarrow> st
      | Some currentIndex \<Rightarrow>
          (let newOpenFiles = filter (\<lambda>f. name f \<noteq> name fileToClose) (openFiles st);
               st1 = (if map_option name (activeFile st) = Some (name fileToClose)
                      then (if length newOpenFiles = 0
                            then st\<lparr>activeFile := None\<rparr>
                            else st\<lparr>activeFile :=
                                   Some (newOpenFiles ! min currentIndex (length newOpenFiles - 1))\<rparr>)
                      else st)
           in st1\<lparr>openFiles := newOpenFiles\<rparr>))"

definition cancelCreateFile :: "app_state \<Rightarrow> app_state" where
  "cancelCreateFile st = st\<lparr>isCreatingFile := False, newFileName := []\<rparr>"

text \<open>
  \<^verbatim>\<open>confirmCreateFile()\<close>. The two \<^verbatim>\<open>alert\<close> branches show a dialog and return
  without touching any signal.
\<close>

definition confirmCreateFile :: "app_state \<Rightarrow> app_state" where
  "confirmCreateFile st =
     (let fileName = trim (newFileName st) in
      if fileName = [] then cancelCreateFile st
      else if \<not> matches_SUPPORTED_EXTENSIONS_REGEX fileName then st
      else if list_ex (\<lambda>f. name f = fileName) (files st) then st
      else
        (let newFile = \<lparr>name = fileName, content = [], language = split_dot_pop fileName\<rparr>;
             st1 = st\<lparr>files := files st @ [newFile]\<rparr>;
             st2 = setActiveFile newFile st1
         in cancelCreateFile st2))"

text \<open>
  \<^verbatim>\<open>deleteFile(fileToDelete, event)\<close>; \<open>confirmed\<close> is the user's answer to the
  \<^verbatim>\<open>confirm\<close> dialog.
\<close>

definition deleteFile :: "bool \<Rightarrow> File \<Rightarrow> app_state \<Rightarrow> app_state" where
  "deleteFile confirmed fileToDelete st =
     (if \<not> confirmed then st
      else
        (let st1 = (if list_ex (\<lambda>f. name f = name fileToDelete) (openFiles st)
                    then closeFile fileToDelete st else st)
         in st1\<lparr>files := filter (\<lambda>f. name f \<noteq> name fileToDelete) (files st1)\<rparr>))"

text \<open>
  The \<^verbatim>\<open>reader.onload\<close> callback of \<^verbatim>\<open>handleFileUpload\<close>, run once for each
  uploaded file when its text has been read; \<open>confirmed\<close> is the answer to the
  overwrite dialog, asked only when the name is taken. The existing file is removed
  before the extension is checked, as in the source.
\<close>

definition upload_onload :: "bool \<Rightarrow> string \<Rightarrow> string \<Rightarrow> app_state \<Rightarrow> app_state" where
  "upload_onload confirmed uploadName uploadContent st =
     (let existing = list_ex (\<lambda>f. name f = uploadName) (files st) in
      if existing \<and> \<not> confirmed then st
      else
        (let st1 = (if existing
                    then st\<lparr>files := filter (\<lambda>f. name f \<noteq> uploadName) (files st)\<rparr>
                    else st);
             lang = split_dot_pop uploadName
         in if lang \<notin> set SUPPORTED_EXTENSIONS then st1
            else
              (let newFile = \<lparr>name = uploadName, content = uploadContent, language = lang\<rparr>;
                   st2 = st1\<lparr>files := files st1 @ [newFile]\<rparr>
               in setActiveFile newFile st2)))"

text \<open>The file-management operations a user can trigger, and their effect on the state.\<close>

datatype file_op =
    SetActiveFile File
  | CloseFile File
  | ConfirmCreateFile
  | UploadFile bool string string
  | DeleteFile bool File
  | UpdateFileContent string string
  | UpdateActiveFileContent string

fun run_file_op :: "file_op \<Rightarrow> app_state \<Rightarrow> app_state" where
  "run_file_op (SetActiveFile f) st = setActiveFile f st"
| "run_file_op (CloseFile f) st = closeFile f st"
| "run_file_op ConfirmCreateFile st = confirmCreateFile st"
| "run_file_op (UploadFile confirmed n c) st = upload_onload confirmed n c st"
| "run_file_op (DeleteFile confirmed f) st = deleteFile confirmed f st"
| "run_file_op (UpdateFileContent n c) st = updateFileContent n c st"
| "run_file_op (UpdateActiveFileContent c) st = updateActiveFileContent c st"

text \<open>
  The state invariant of the data model, by file name (the identity of a file): every
  open file is in the collection, and the active file, when there is one, is open.
\<close>

definition open_files_exist :: "app_state \<Rightarrow> bool" where
  "open_files_exist st = list_all (\<lambda>f. list_ex (\<lambda>g. name g = name f) (files st)) (openFiles st)"

definition active_file_open :: "app_state \<Rightarrow> bool" where
  "active_file_open st =
     (case activeFile st of
        None \<Rightarrow> True
      | Some a \<Rightarrow> list_ex (\<lambda>f. name f = name a) (openFiles st))"

definition state_invariant :: "app_state \<Rightarrow> bool" where
  "state_invariant st = (open_files_exist st \<and> active_file_open st)"

text \<open>
  Every name in the collection passes the extension check of the upload path. Creation
  and upload are the only ways a file enters the collection, and both check the name.
\<close>

definition names_supported :: "app_state \<Rightarrow> bool" where
  "names_supported st =
     list_all (\<lambda>f. split_dot_pop (name f) \<in> set SUPPORTED_EXTENSIONS) (files st)"

text \<open>
  The argument of \<^verbatim>\<open>setActiveFile\<close>, \<^verbatim>\<open>closeFile\<close> and \<^verbatim>\<open>deleteFile\<close> is a
  file shown in the explorer or in a tab; \<^verbatim>\<open>setActiveFile\<close> is only ever handed a
  file of the collection.
\<close>

fun op_argument_known :: "file_op \<Rightarrow> app_state \<Rightarrow> bool" where
  "op_argument_known (SetActiveFile f) st = list_ex (\<lambda>g. name g = name f) (files st)"
| "op_argument_known _ st = True"

section \<open>Console relay (interceptor script, lines 439-477; host listener, lines 82-90)\<close>

text \<open>
  The serialisation of one argument inside \<^verbatim>\<open>postLog\<close>. \<open>json_roundtrip\<close> is
  \<^verbatim>\<open>JSON.parse(JSON.stringify(arg, replacer))\<close>, a function of the language runtime,
  with \<open>None\<close> when it throws.
\<close>

definition serialize_arg :: "(js_value \<Rightarrow> js_value option) \<Rightarrow> js_value \<Rightarrow> js_value" where
  "serialize_arg json_roundtrip arg =
     (case arg of
        JErrorObj message stack \<Rightarrow>
          JObject [(''__error'', JBool True), (''message'', message), (''stack'', stack)]
      | _ \<Rightarrow>
          (case json_roundtrip arg of
             Some v \<Rightarrow> v
           | None \<Rightarrow> JString ''Unserializable Object''))"

text \<open>
  The message \<^verbatim>\<open>postLog(type, args)\<close> posts to the parent window when the posting
  itself does not throw; \<open>timestamp\<close> is \<^verbatim>\<open>new Date().toISOString()\<close>.
\<close>

definition postLog :: "(js_value \<Rightarrow> js_value option) \<Rightarrow> string \<Rightarrow> string \<Rightarrow> js_value list \<Rightarrow> js_value" where
  "postLog json_roundtrip timestamp log_type args =
     JObject [(''type'', JString ''CONSOLE_LOG''),
              (''payload'', JObject [(''type'', JString log_type),
                                     (''data'', JArray (map (serialize_arg json_roundtrip) args)),
                                     (''timestamp'', JString timestamp)])]"

text \<open>
  Reading a property of a received value: a missing property is \<^verbatim>\<open>undefined\<close>, and
  values of this model other than plain objects have neither of the two properties the
  listener reads.
\<close>

definition get_property :: "js_value \<Rightarrow> string \<Rightarrow> js_value" where
  "get_property v key =
     (case v of
        JObject props \<Rightarrow> (case map_of props key of Some x \<Rightarrow> x | None \<Rightarrow> JUndefined)
      | _ \<Rightarrow> JUndefined)"

text \<open>
  \<^verbatim>\<open>onMessage(event)\<close>. Destructuring \<^verbatim>\<open>event.data\<close> throws a TypeError when the
  data is \<^verbatim>\<open>undefined\<close> or \<^verbatim>\<open>null\<close>.
\<close>

definition onMessage :: "message_event \<Rightarrow> app_state \<Rightarrow> thrown + app_state" where
  "onMessage event st =
     (if source event \<noteq> previewContentWindow st then Inr st
      else if data event = JUndefined \<or> data event = JNull then Inl (JsError ''TypeError'')
      else
        (let msg_type = get_property (data event) ''type'';
             payload = get_property (data event) ''payload''
         in if msg_type = JString ''CONSOLE_LOG''
            then Inr (st\<lparr>consoleLogs := consoleLogs st @ [payload]\<rparr>)
            else Inr st))"

section \<open>Preview document (lines 114-120 and 479-500)\<close>

text \<open>
  The placeholder shown when the collection has no HTML file. The text of the source is
  Russian; it is transliterated here, as a character of this model is one byte.
\<close>

definition NO_HTML_PLACEHOLDER :: string where
  "NO_HTML_PLACEHOLDER = ''<!-- Sozdajte HTML fajl dlya predprosmotra -->''"

text \<open>
  \<^verbatim>\<open>buildIframeContent(files)\<close>; \<open>interceptorScript\<close> is the text returned by
  \<^verbatim>\<open>getConsoleInterceptorScript()\<close>. The white space of the template between the
  tags is left out.
\<close>

definition buildIframeContent :: "string \<Rightarrow> File list \<Rightarrow> string" where
  "buildIframeContent interceptorScript fs =
     (let htmlFile = find (\<lambda>f. language f = ''html'') fs;
          cssFile = find (\<lambda>f. language f = ''css'') fs;
          jsFile = find (\<lambda>f. language f = ''js'') fs
      in concat
           [''<html><head><style>'',
            (case cssFile of Some f \<Rightarrow> content f | None \<Rightarrow> []),
            ''</style><script>'', interceptorScript, ''</script></head><body>'',
            (case htmlFile of Some f \<Rightarrow> content f | None \<Rightarrow> NO_HTML_PLACEHOLDER),
            ''<script>'',
            (case jsFile of Some f \<Rightarrow> content f | None \<Rightarrow> []),
            ''</script></body></html>''])"

text \<open>
  The debounced pipeline behind \<^verbatim>\<open>iframeSrcDoc\<close>: once the collection has been quiet
  for 300 ms, the preview document is rebuilt from the collection as it is then.
\<close>

definition iframeSrcDoc_emit :: "string \<Rightarrow> app_state \<Rightarrow> app_state" where
  "iframeSrcDoc_emit interceptorScript st =
     st\<lparr>iframeSrcDoc := buildIframeContent interceptorScript (files st)\<rparr>"

text \<open>
  \<^verbatim>\<open>forcePreviewRefresh()\<close> writes a copy of the collection (which restarts the pipeline
  above) and empties the log store.
\<close>

definition forcePreviewRefresh :: "app_state \<Rightarrow> app_state" where
  "forcePreviewRefresh st = st\<lparr>files := files st, consoleLogs := []\<rparr>"

section \<open>Animated patch applier (monaco-editor.component.ts, lines 144-208)\<close>

text \<open>
  The text-editing widget is an external library; the component consumes it as a
  capability: get and set the full text, map an offset to a position, select a range,
  apply a ranged replacement, read the caret. Here a range is a pair of offsets, and an
  edit leaves the caret after the inserted text. Reading and writing the full text
  (\<^verbatim>\<open>getValue\<close>, \<^verbatim>\<open>setValue\<close>) always return.

  The widget (Monaco 0.45.0) does not keep a text as it is given: a buffer has one line
  end, and the line ends of a text handed to \<^verbatim>\<open>setValue\<close> or inserted by an edit are
  rewritten to it. (It also drops a leading byte order mark U+FEFF, which lies outside
  the characters of this development.)

  The change-notification callback of the component (\<^verbatim>\<open>initEditor\<close>, lines 229-235)
  only emits the \<^verbatim>\<open>contentChange\<close> output, and only while the animating flag is
  clear; it writes no field of the component. What the parent does with that output is
  fixed by its template, which is outside this development.
\<close>

text \<open>
  The numbers of lone carriage returns, of lone line feeds and of pairs \<^verbatim>\<open>\r\n\<close> in a
  text, as the widget counts them from left to right.
\<close>

fun count_eols :: "string \<Rightarrow> nat \<times> nat \<times> nat" where
  "count_eols [] = (0, 0, 0)"
| "count_eols [c] =
     (if c = CHR 0x0D then (1, 0, 0) else if c = CHR 0x0A then (0, 1, 0) else (0, 0, 0))"
| "count_eols (c # d # ds) =
     (if c = CHR 0x0D \<and> d = CHR 0x0A
      then (case count_eols ds of (cr, lf, crlf) \<Rightarrow> (cr, lf, Suc crlf))
      else if c = CHR 0x0D
      then (case count_eols (d # ds) of (cr, lf, crlf) \<Rightarrow> (Suc cr, lf, crlf))
      else if c = CHR 0x0A
      then (case count_eols (d # ds) of (cr, lf, crlf) \<Rightarrow> (cr, Suc lf, crlf))
      else count_eols (d # ds))"

definition eol_text :: "eol \<Rightarrow> string" where
  "eol_text e = (case e of LF \<Rightarrow> [CHR 0x0A] | CRLF \<Rightarrow> [CHR 0x0D, CHR 0x0A])"

text \<open>\<^verbatim>\<open>text.replace(/\r\n|\r|\n/g, eol)\<close>, the rewriting of every line end of a text.\<close>

fun replace_eols :: "string \<Rightarrow> string \<Rightarrow> string" where
  "replace_eols e [] = []"
| "replace_eols e [c] = (if c = CHR 0x0D \<or> c = CHR 0x0A then e else [c])"
| "replace_eols e (c # d # ds) =
     (if c = CHR 0x0D \<and> d = CHR 0x0A then e @ replace_eols e ds
      else if c = CHR 0x0D \<or> c = CHR 0x0A then e @ replace_eols e (d # ds)
      else c # replace_eols e (d # ds))"

text \<open>
  The line end of the buffer the widget builds for a text: the default one when the text
  has no line end, \<^verbatim>\<open>\r\n\<close> when more than half of its line ends hold a carriage
  return, \<^verbatim>\<open>\n\<close> otherwise.
\<close>

definition choose_eol :: "eol \<Rightarrow> string \<Rightarrow> eol" where
  "choose_eol defaultEOL s =
     (case count_eols s of (cr, lf, crlf) \<Rightarrow>
        (let totalEOLCount = cr + lf + crlf; totalCRCount = cr + crlf
         in if totalEOLCount = 0 then defaultEOL
            else if 2 * totalCRCount > totalEOLCount then CRLF
            else LF))"

text \<open>
  The text the widget keeps when it is handed \<open>s\<close> as the full text: every line end is
  rewritten to the chosen one as soon as one line end of \<open>s\<close> differs from it.
\<close>

definition stored_text :: "eol \<Rightarrow> string \<Rightarrow> string" where
  "stored_text defaultEOL s =
     (case count_eols s of (cr, lf, crlf) \<Rightarrow>
        (let e = choose_eol defaultEOL s
         in if (e = CRLF \<and> (cr > 0 \<or> lf > 0)) \<or> (e = LF \<and> (cr > 0 \<or> crlf > 0))
            then replace_eols (eol_text e) s
            else s))"

text \<open>
  The text the widget inserts when an edit hands it \<open>s\<close>: \<open>s\<close> itself when it has no
  line end or only the line end of the buffer, otherwise \<open>s\<close> with every line end
  rewritten to that of the buffer.
\<close>

definition inserted_text :: "eol \<Rightarrow> string \<Rightarrow> string" where
  "inserted_text bufferEOL s =
     (case count_eols s of (cr, lf, crlf) \<Rightarrow>
        (if cr + lf + crlf = 0 \<or> (bufferEOL = LF \<and> cr = 0 \<and> crlf = 0)
            \<or> (bufferEOL = CRLF \<and> cr = 0 \<and> lf = 0)
         then s
         else replace_eols (eol_text bufferEOL) s))"


definition getValue :: "editor_buffer \<Rightarrow> string" where
  "getValue b = buf_text b"

definition setValue :: "string \<Rightarrow> editor_buffer \<Rightarrow> editor_buffer" where
  "setValue s b =
     b\<lparr>buf_text := stored_text (default_eol b) s, caret := 0,
       buf_eol := choose_eol (default_eol b) s\<rparr>"

definition getPositionAt :: "editor_buffer \<Rightarrow> nat \<Rightarrow> nat" where
  "getPositionAt b offset = min offset (length (buf_text b))"

definition getPosition :: "editor_buffer \<Rightarrow> nat" where
  "getPosition b = caret b"

definition setSelection :: "nat \<Rightarrow> nat \<Rightarrow> editor_buffer \<Rightarrow> editor_buffer" where
  "setSelection startPos endPos b = b\<lparr>caret := endPos\<rparr>"

definition executeEdits :: "nat \<Rightarrow> nat \<Rightarrow> string \<Rightarrow> editor_buffer \<Rightarrow> editor_buffer" where
  "executeEdits startPos endPos txt b =
     (let lo = min startPos endPos; hi = max startPos endPos;
          validText = inserted_text (buf_eol b) txt
      in b\<lparr>buf_text := take lo (buf_text b) @ validText @ drop hi (buf_text b),
            caret := lo + length validText\<rparr>)"

text \<open>
  How an asynchronous call ends: it resolves, it rejects with a thrown value, or it never
  settles. The state carried is the state at that moment.
\<close>

datatype 'a promise = Resolved 'a | Rejected thrown 'a | Pending 'a

text \<open>
  What the surroundings do during one run of the animation: whether a call of the widget
  throws (\<open>None\<close>: it returns), and what becomes of the buffer while the applier waits
  on a timer (the identity when nobody else touches it; the editor stays initialised).
  \<open>select_throws\<close> stands for a throw in lines 164-172 (up to \<^verbatim>\<open>setSelection\<close>),
  \<open>reveal_throws\<close> for one in \<^verbatim>\<open>revealRangeInCenter\<close>, \<open>delete_throws\<close> for one
  in the delete edit, \<open>type_throws i\<close> for one while the character at index \<open>i\<close> is
  typed; \<open>select_pause\<close>, \<open>delete_pause\<close> and \<open>type_pause i\<close> are the pauses of
  300 ms, 200 ms and 15 ms that follow.
\<close>

record anim_env =
  select_throws :: "thrown option"
  reveal_throws :: "thrown option"
  select_pause :: "editor_buffer \<Rightarrow> editor_buffer"
  delete_throws :: "thrown option"
  delete_pause :: "editor_buffer \<Rightarrow> editor_buffer"
  type_throws :: "nat \<Rightarrow> thrown option"
  type_pause :: "nat \<Rightarrow> editor_buffer \<Rightarrow> editor_buffer"

text \<open>
  \<^verbatim>\<open>typeTextAnimated(text)\<close>: the list is the text from index \<open>i\<close> on. The first call
  of \<^verbatim>\<open>type\<close> runs inside the promise's executor, so a throw there rejects the promise;
  every later call runs from a timer, where a throw is uncaught and the promise is never
  resolved.
\<close>

fun typeTextAnimated :: "anim_env \<Rightarrow> nat \<Rightarrow> string \<Rightarrow> editor_buffer \<Rightarrow> editor_buffer promise" where
  "typeTextAnimated env i [] b = Resolved b"
| "typeTextAnimated env i (c # cs) b =
     (case type_throws env i of
        Some e \<Rightarrow> (if i = 0 then Rejected e b else Pending b)
      | None \<Rightarrow>
          (let pos = getPosition b;
               b1 = executeEdits pos pos [c] b
           in typeTextAnimated env (Suc i) cs (type_pause env i b1)))"

text \<open>The body of the \<^verbatim>\<open>try\<close> block of \<^verbatim>\<open>applyChangesWithAnimation\<close>, lines 149-181.\<close>

definition animation_steps :: "anim_env \<Rightarrow> string \<Rightarrow> editor_buffer \<Rightarrow> editor_buffer promise" where
  "animation_steps env newContent b =
     (let oldContent = getValue b in
      if oldContent = newContent then Resolved b
      else
        (case diff oldContent newContent of (prefixLen, suffixLen, textToInsert) \<Rightarrow>
          (let startPos = getPositionAt b prefixLen;
               endPos = getPositionAt b (length oldContent - suffixLen)
           in case select_throws env of
                Some e \<Rightarrow> Rejected e b
              | None \<Rightarrow>
                  (let b1 = setSelection startPos endPos b in
                   case reveal_throws env of
                     Some e \<Rightarrow> Rejected e b1
                   | None \<Rightarrow>
                       (let b2 = select_pause env b1 in
                        case delete_throws env of
                          Some e \<Rightarrow> Rejected e b2
                        | None \<Rightarrow>
                            (let b3 = executeEdits startPos endPos [] b2;
                                 b4 = delete_pause env b3
                             in typeTextAnimated env 0 textToInsert b4))))))"

text \<open>The \<^verbatim>\<open>finally\<close> block, lines 183-188.\<close>

definition animation_finally :: "string \<Rightarrow> monaco_component \<Rightarrow> monaco_component" where
  "animation_finally newContent ec =
     (let ec1 = ec\<lparr>isAnimating := False\<rparr> in
      case editor ec1 of
        Some b \<Rightarrow>
          (if getValue b \<noteq> newContent
           then ec1\<lparr>editor := Some (setValue newContent b)\<rparr>
           else ec1)
      | None \<Rightarrow> ec1)"

definition applyChangesWithAnimation ::
    "anim_env \<Rightarrow> string \<Rightarrow> monaco_component \<Rightarrow> monaco_component promise" where
  "applyChangesWithAnimation env newContent ec =
     (case editor ec of
        None \<Rightarrow> Resolved ec
      | Some b \<Rightarrow>
          (let ec1 = ec\<lparr>isAnimating := True\<rparr> in
           case animation_steps env newContent b of
             Resolved b' \<Rightarrow> Resolved (animation_finally newContent (ec1\<lparr>editor := Some b'\<rparr>))
           | Rejected e b' \<Rightarrow> Rejected e (animation_finally newContent (ec1\<lparr>editor := Some b'\<rparr>))
           | Pending b' \<Rightarrow> Pending (ec1\<lparr>editor := Some b'\<rparr>)))"


text \<open>No call of the widget throws during the run.\<close>

definition no_throw :: "anim_env \<Rightarrow> bool" where
  "no_throw env =
     (select_throws env = None \<and> reveal_throws env = None \<and> delete_throws env = None
      \<and> (\<forall>i. type_throws env i = None))"

section \<open>Edit orchestrator (app component, askAI, lines 524-586)\<close>

text \<open>\<^verbatim>\<open>interface AiCodeResponse\<close>; an optional field that is absent is \<open>None\<close>.\<close>

record AiCodeResponse =
  explanation :: string
  html :: "string option"
  css :: "string option"
  js :: "string option"

record diff_job =
  fileName :: string
  after :: string

text \<open>
  The surroundings of one run of \<^verbatim>\<open>askAI\<close>: the answer of the AI service to the call
  of \<^verbatim>\<open>getCodeModification\<close> (\<open>Inl\<close>: it throws), and for the job at each position of
  the queue, what becomes of the editor component during the 50 ms pause after the file
  is made active, and the surroundings of its animation.
\<close>

record ai_env =
  getCodeModification :: "string \<Rightarrow> string \<Rightarrow> string \<Rightarrow> string \<Rightarrow> string \<Rightarrow> thrown + AiCodeResponse"
  editor_switch :: "nat \<Rightarrow> monaco_component option \<Rightarrow> monaco_component option"
  animation :: "nat \<Rightarrow> anim_env"

text \<open>The two fixed texts of \<^verbatim>\<open>askAI\<close>, Russian in the source and transliterated here.\<close>

definition AI_ERROR_FALLBACK :: string where
  "AI_ERROR_FALLBACK = ''Proizoshla oshibka pri obrashchenii k AI.''"

definition NO_CHANGES_NOTE :: string where
  "NO_CHANGES_NOTE = [CHR 0x0A, CHR 0x0A] @ ''(Izmenenij v kode ne predlozheno)''"

text \<open>\<^verbatim>\<open>file?.content ?? ''\<close> and \<^verbatim>\<open>file?.name ?? fallback\<close>.\<close>

definition content_or_empty :: "File option \<Rightarrow> string" where
  "content_or_empty f = (case f of Some g \<Rightarrow> content g | None \<Rightarrow> [])"

definition name_or :: "File option \<Rightarrow> string \<Rightarrow> string" where
  "name_or f fallback = (case f of Some g \<Rightarrow> name g | None \<Rightarrow> fallback)"

text \<open>
  One of the three tests of lines 546-554: \<^verbatim>\<open>response.x && response.x !== current\<close>.
  An absent field and the empty string are both falsy.
\<close>

definition queue_entry :: "string option \<Rightarrow> File option \<Rightarrow> string \<Rightarrow> diff_job list" where
  "queue_entry patch f fallback =
     (case patch of
        None \<Rightarrow> []
      | Some txt \<Rightarrow>
          (if txt \<noteq> [] \<and> txt \<noteq> content_or_empty f
           then [\<lparr>fileName = name_or f fallback, after = txt\<rparr>]
           else []))"

definition build_diffs :: "AiCodeResponse \<Rightarrow> File list \<Rightarrow> diff_job list" where
  "build_diffs response fs =
     (let htmlFile = find (\<lambda>f. language f = ''html'') fs;
          cssFile = find (\<lambda>f. language f = ''css'') fs;
          jsFile = find (\<lambda>f. language f = ''js'') fs
      in queue_entry (html response) htmlFile ''index.html''
         @ queue_entry (css response) cssFile ''style.css''
         @ queue_entry (js response) jsFile ''script.js'')"

text \<open>
  The loop of lines 560-571 over the queue, \<open>k\<close> being the position of the first job
  of the list. A rejected animation leaves the loop with the thrown value; an animation
  that never settles leaves \<^verbatim>\<open>askAI\<close> waiting for ever.
\<close>

fun apply_diffs :: "ai_env \<Rightarrow> nat \<Rightarrow> diff_job list \<Rightarrow> app_state \<Rightarrow> app_state promise" where
  "apply_diffs env k [] st = Resolved st"
| "apply_diffs env k (d # ds) st =
     (case find (\<lambda>f. name f = fileName d) (files st) of
        None \<Rightarrow> apply_diffs env (Suc k) ds st
      | Some fileToUpdate \<Rightarrow>
          (let st1 = setActiveFile fileToUpdate st;
               st2 = st1\<lparr>editorComponent := editor_switch env k (editorComponent st1)\<rparr>
           in case editorComponent st2 of
                None \<Rightarrow> apply_diffs env (Suc k) ds (updateFileContent (fileName d) (after d) st2)
              | Some ec \<Rightarrow>
                  (let st3 = st2\<lparr>animated := animated st2 @ [fileName d]\<rparr> in
                   case applyChangesWithAnimation (animation env k) (after d) ec of
                     Resolved ec' \<Rightarrow>
                       apply_diffs env (Suc k) ds
                         (updateFileContent (fileName d) (after d)
                            (st3\<lparr>editorComponent := Some ec'\<rparr>))
                   | Rejected e ec' \<Rightarrow> Rejected e (st3\<lparr>editorComponent := Some ec'\<rparr>)
                   | Pending ec' \<Rightarrow> Pending (st3\<lparr>editorComponent := Some ec'\<rparr>))))"

text \<open>The \<^verbatim>\<open>catch\<close> and the \<^verbatim>\<open>finally\<close> block of \<^verbatim>\<open>askAI\<close>.\<close>

definition askAI_catch :: "thrown \<Rightarrow> app_state \<Rightarrow> app_state" where
  "askAI_catch err st =
     st\<lparr>aiError := (case err of JsError message \<Rightarrow> message | NonError \<Rightarrow> AI_ERROR_FALLBACK)\<rparr>"

definition askAI_finally :: "app_state \<Rightarrow> app_state" where
  "askAI_finally st = st\<lparr>isAiLoading := False, isAiApplyingEdits := False\<rparr>"

text \<open>
  Lines 532-542: the three current texts are read from the collection and handed to the
  AI service with the prompt and the selected model.
\<close>

definition ai_call :: "ai_env \<Rightarrow> app_state \<Rightarrow> thrown + AiCodeResponse" where
  "ai_call env st =
     (let htmlFile = find (\<lambda>f. language f = ''html'') (files st);
          cssFile = find (\<lambda>f. language f = ''css'') (files st);
          jsFile = find (\<lambda>f. language f = ''js'') (files st)
      in getCodeModification env (content_or_empty htmlFile) (content_or_empty cssFile)
           (content_or_empty jsFile) (aiPrompt st) (selectedModel st))"

text \<open>Lines 526-529, before the call of the service, and lines 557-558, before the loop.\<close>

definition askAI_start :: "app_state \<Rightarrow> app_state" where
  "askAI_start st =
     st\<lparr>isAiLoading := True, isAiApplyingEdits := False, aiExplanation := [], aiError := []\<rparr>"

definition askAI_applying :: "app_state \<Rightarrow> app_state" where
  "askAI_applying st = st\<lparr>isAiLoading := False, isAiApplyingEdits := True\<rparr>"

definition askAI :: "ai_env \<Rightarrow> app_state \<Rightarrow> app_state promise" where
  "askAI env st =
     (if trim (aiPrompt st) = [] then Resolved st
      else
        (let st0 = askAI_start st
         in case ai_call env st0 of
              Inl err \<Rightarrow> Resolved (askAI_finally (askAI_catch err st0))
            | Inr response \<Rightarrow>
                (let diffs = build_diffs response (files st0);
                     looped = (if length diffs > 0
                               then apply_diffs env 0 diffs (askAI_applying st0)
                               else Resolved st0)
                 in case looped of
                      Resolved st1 \<Rightarrow>
                        (let st2 = st1\<lparr>aiExplanation := explanation response\<rparr>;
                             st3 = (if length diffs = 0
                                    then st2\<lparr>aiExplanation := aiExplanation st2 @ NO_CHANGES_NOTE\<rparr>
                                    else st2)
                         in Resolved (askAI_finally st3))
                    | Rejected err st1 \<Rightarrow> Resolved (askAI_finally (askAI_catch err st1))
                    | Pending st1 \<Rightarrow> Pending st1)))"

section \<open>A concrete state\<close>

text \<open>
  The state of a freshly started component over the default collection of
  \<^verbatim>\<open>loadFilesFromStorage\<close> (its three texts shortened): all three files are open, the
  first is active, the editor shows it.
\<close>

definition demo_files :: "File list" where
  "demo_files =
     [\<lparr>name = ''index.html'', content = ''<h1>Hi</h1>'', language = ''html''\<rparr>,
      \<lparr>name = ''style.css'', content = ''body { padding: 1rem; }'', language = ''css''\<rparr>,
      \<lparr>name = ''script.js'', content = ''console.log(1);'', language = ''js''\<rparr>]"

definition demo_state :: app_state where
  "demo_state =
     \<lparr>files = demo_files,
      openFiles = demo_files,
      activeFile = Some (hd demo_files),
      isCreatingFile = False,
      newFileName = [],
      iframeSrcDoc = buildIframeContent [] demo_files,
      consoleLogs = [],
      previewContentWindow = Some 1,
      aiPrompt = ''restyle the page'',
      isAiLoading = False,
      isAiApplyingEdits = False,
      aiExplanation = [],
      aiError = [],
      selectedModel = ''gemini-2.5-flash'',
      editorComponent = Some \<lparr>editor = Some \<lparr>buf_text = ''<h1>Hi</h1>'', caret = 0, buf_eol = LF, default_eol = LF\<rparr>,
                              isAnimating = False\<rparr>,
      animated = []\<rparr>"

text \<open>
  A state over a collection that holds an open file whose name has no supported
  extension (such a file cannot be created or uploaded through the component, but a
  stored collection is loaded as it is).
\<close>

definition legacy_state :: app_state where
  "legacy_state =
     demo_state\<lparr>files := demo_files @ [\<lparr>name = ''README'', content = ''x'', language = ''txt''\<rparr>],
                openFiles := demo_files @ [\<lparr>name = ''README'', content = ''x'', language = ''txt''\<rparr>]\<rparr>"

text \<open>Surroundings in which nothing throws and nobody else touches the editor.\<close>

definition quiet_anim :: anim_env where
  "quiet_anim =
     \<lparr>select_throws = None, reveal_throws = None, select_pause = (\<lambda>b. b),
      delete_throws = None, delete_pause = (\<lambda>b. b),
      type_throws = (\<lambda>i. None), type_pause = (\<lambda>i b. b)\<rparr>"


definition demo_editor :: monaco_component where
  "demo_editor = \<lparr>editor = Some \<lparr>buf_text = ''hello world'', caret = 0, buf_eol = LF, default_eol = LF\<rparr>, isAnimating = False\<rparr>"



text \<open>A message as the interceptor script posts it for \<^verbatim>\<open>console.warn('x')\<close>.\<close>

definition demo_message :: js_value where
  "demo_message = postLog (\<lambda>v. Some v) ''2024-01-01T00:00:00Z'' ''warn'' [JString ''x'']"

text \<open>Surroundings of \<^verbatim>\<open>askAI\<close> used to run it on the concrete state.\<close>

definition failing_service :: ai_env where
  "failing_service =
     \<lparr>getCodeModification = (\<lambda>h c j p m. Inl (JsError ''no key'')),
      editor_switch = (\<lambda>k ec. ec),
      animation = (\<lambda>k. quiet_anim)\<rparr>"

text \<open>During the pause the editor is handed the text of the file made active.\<close>

definition show_text :: "string \<Rightarrow> monaco_component option \<Rightarrow> monaco_component option" where
  "show_text t = map_option (\<lambda>ec. ec\<lparr>editor := map_option (setValue t) (editor ec)\<rparr>)"

definition css_patch :: AiCodeResponse where
  "css_patch = \<lparr>explanation = ''more padding'', html = None,
                css = Some ''body { padding: 2rem; }'', js = None\<rparr>"

definition css_only_service :: ai_env where
  "css_only_service =
     \<lparr>getCodeModification = (\<lambda>h c j p m. Inr css_patch),
      editor_switch = (\<lambda>k. show_text ''body { padding: 1rem; }''),
      animation = (\<lambda>k. quiet_anim)\<rparr>"

definition empty_css_service :: ai_env where
  "empty_css_service =
     css_only_service\<lparr>getCodeModification := (\<lambda>h c j p m. Inr (css_patch\<lparr>css := Some []\<rparr>))\<rparr>"










definition css_editor :: monaco_component where
  "css_editor = \<lparr>editor = Some \<lparr>buf_text = ''body { padding: 1rem; }'', caret = 0, buf_eol = LF, default_eol = LF\<rparr>,
                 isAnimating = False\<rparr>"

section \<open>Properties of the diff\<close>

lemma prefix_loop_step:
  "p < length old \<Longrightarrow> p < length new \<Longrightarrow> old ! p = new ! p \<Longrightarrow>
   prefix_loop old new p = prefix_loop old new (Suc p)"
  by (subst prefix_loop.simps) simp

lemma prefix_loop_stop:
  "\<not> (p < length old \<and> p < length new \<and> old ! p = new ! p) \<Longrightarrow> prefix_loop old new p = p"
  by (subst prefix_loop.simps) auto

lemma suffix_loop_step:
  "s < length old - p \<Longrightarrow> s < length new - p \<Longrightarrow>
   old ! (length old - 1 - s) = new ! (length new - 1 - s) \<Longrightarrow>
   suffix_loop old new p s = suffix_loop old new p (Suc s)"
  by (subst suffix_loop.simps) simp

lemma suffix_loop_stop:
  "\<not> (s < length old - p \<and> s < length new - p
      \<and> old ! (length old - 1 - s) = new ! (length new - 1 - s)) \<Longrightarrow>
   suffix_loop old new p s = s"
  by (subst suffix_loop.simps) auto

lemma prefix_loop_bounds:
  "p \<le> length old \<Longrightarrow> p \<le> length new \<Longrightarrow>
   p \<le> prefix_loop old new p \<and> prefix_loop old new p \<le> length old
     \<and> prefix_loop old new p \<le> length new"
proof (induction old new p rule: prefix_loop.induct)
  case (1 old new p)
  show ?case
  proof (cases "p < length old \<and> p < length new \<and> old ! p = new ! p")
    case True
    then have eq: "prefix_loop old new p = prefix_loop old new (Suc p)"
      by (simp add: prefix_loop_step)
    from True "1.IH" have "Suc p \<le> prefix_loop old new (Suc p) \<and>
        prefix_loop old new (Suc p) \<le> length old \<and> prefix_loop old new (Suc p) \<le> length new"
      by simp
    with eq show ?thesis by simp
  next
    case False
    then have "prefix_loop old new p = p" by (rule prefix_loop_stop)
    with "1.prems" show ?thesis by simp
  qed
qed

lemma prefix_loop_take:
  "take p old = take p new \<Longrightarrow>
   take (prefix_loop old new p) old = take (prefix_loop old new p) new"
proof (induction old new p rule: prefix_loop.induct)
  case (1 old new p)
  show ?case
  proof (cases "p < length old \<and> p < length new \<and> old ! p = new ! p")
    case True
    then have eq: "prefix_loop old new p = prefix_loop old new (Suc p)"
      by (simp add: prefix_loop_step)
    from True have "take (Suc p) old = take (Suc p) new"
      using "1.prems" by (simp add: take_Suc_conv_app_nth)
    with "1.IH" True eq show ?thesis by simp
  next
    case False
    then have "prefix_loop old new p = p" by (rule prefix_loop_stop)
    with "1.prems" show ?thesis by simp
  qed
qed

lemma suffix_loop_bounds:
  "s \<le> length old - p \<Longrightarrow> s \<le> length new - p \<Longrightarrow>
   suffix_loop old new p s \<le> length old - p \<and> suffix_loop old new p s \<le> length new - p"
proof (induction old new p s rule: suffix_loop.induct)
  case (1 old new p s)
  show ?case
  proof (cases "s < length old - p \<and> s < length new - p
      \<and> old ! (length old - 1 - s) = new ! (length new - 1 - s)")
    case True
    then have eq: "suffix_loop old new p s = suffix_loop old new p (Suc s)"
      by (simp add: suffix_loop_step)
    from True "1.IH" have "suffix_loop old new p (Suc s) \<le> length old - p
        \<and> suffix_loop old new p (Suc s) \<le> length new - p"
      by simp
    with eq show ?thesis by simp
  next
    case False
    then have "suffix_loop old new p s = s" by (rule suffix_loop_stop)
    with "1.prems" show ?thesis by simp
  qed
qed

lemma drop_one_more:
  assumes "s < length xs"
  shows "drop (length xs - Suc s) xs = xs ! (length xs - 1 - s) # drop (length xs - s) xs"
proof -
  from assms have "length xs - Suc s < length xs" by simp
  then have "drop (length xs - Suc s) xs
      = xs ! (length xs - Suc s) # drop (Suc (length xs - Suc s)) xs"
    by (rule Cons_nth_drop_Suc [symmetric])
  moreover from assms have "Suc (length xs - Suc s) = length xs - s" by simp
  ultimately show ?thesis by simp
qed

lemma suffix_loop_drop:
  "drop (length old - s) old = drop (length new - s) new \<Longrightarrow>
   drop (length old - suffix_loop old new p s) old
     = drop (length new - suffix_loop old new p s) new"
proof (induction old new p s rule: suffix_loop.induct)
  case (1 old new p s)
  show ?case
  proof (cases "s < length old - p \<and> s < length new - p
      \<and> old ! (length old - 1 - s) = new ! (length new - 1 - s)")
    case True
    then have eq: "suffix_loop old new p s = suffix_loop old new p (Suc s)"
      by (simp add: suffix_loop_step)
    from True have lt: "s < length old" "s < length new" by arith+
    have "drop (length old - Suc s) old = drop (length new - Suc s) new"
      using True "1.prems" by (simp add: drop_one_more [OF lt(1)] drop_one_more [OF lt(2)])
    with "1.IH" True eq show ?thesis by simp
  next
    case False
    then have "suffix_loop old new p s = s" by (rule suffix_loop_stop)
    with "1.prems" show ?thesis by simp
  qed
qed

lemma substring_in_range:
  "a \<le> b \<Longrightarrow> b \<le> length s \<Longrightarrow> substring s a b = take (b - a) (drop a s)"
  by (simp add: substring_def Let_def min_def max_def)

lemma split_three:
  assumes "a \<le> b" "b \<le> length s"
  shows "take a s @ take (b - a) (drop a s) @ drop b s = s"
proof -
  have "take (b - a) (drop a s) @ drop b s = drop a s"
    using assms by (metis append_take_drop_id drop_drop le_add_diff_inverse2)
  then show ?thesis by simp
qed

lemma diff_correct:
  assumes d: "diff old new = (p, s, t)"
  shows "p + s \<le> min (length old) (length new) \<and> replace_middle old p s t = new"
proof -
  from d have p: "p = prefix_loop old new 0"
    and s: "s = suffix_loop old new p 0"
    and t: "t = substring new p (length new - s)"
    by (auto simp add: diff_def Let_def)
  have pb: "p \<le> length old" "p \<le> length new"
    using prefix_loop_bounds [of 0 old new] p by simp_all
  have sb: "s \<le> length old - p" "s \<le> length new - p"
    using suffix_loop_bounds [of 0 old p new] s by simp_all
  have bound: "p + s \<le> min (length old) (length new)"
    using pb sb by arith
  have pre: "take p old = take p new"
    using prefix_loop_take [of 0 old new] p by simp
  have suf: "drop (length old - s) old = drop (length new - s) new"
    using suffix_loop_drop [of old 0 new p] s by simp
  have le: "p \<le> length new - s" using pb sb by arith
  have "t = take (length new - s - p) (drop p new)"
    using t le by (simp add: substring_in_range)
  then have "replace_middle old p s t
      = take p new @ take (length new - s - p) (drop p new) @ drop (length new - s) new"
    by (simp add: replace_middle_def pre suf)
  also have "\<dots> = new"
    using le by (intro split_three) simp_all
  finally show ?thesis
    using bound by simp
qed


text \<open>
  C1. For every pair of texts, the prefix and suffix lengths computed by the applier
  never overlap (their sum is at most the length of the shorter text), and replacing the
  middle segment of the old text by \<open>textToInsert\<close> gives exactly the new text.
\<close>

theorem diff_reconstructs:
  "(case diff old new of (p, s, t) \<Rightarrow>
      p + s \<le> min (length old) (length new) \<and> replace_middle old p s t = new)"
proof (cases "diff old new")
  case (fields p s t)
  then show ?thesis using diff_correct [of old new p s t] by simp
qed

section \<open>The state invariant of the file operations\<close>


lemma list_ex_name: "list_ex (\<lambda>g. name g = n) xs \<longleftrightarrow> n \<in> set (map name xs)"
  by (induction xs) auto

lemma open_files_exist_iff:
  "open_files_exist st \<longleftrightarrow> set (map name (openFiles st)) \<subseteq> set (map name (files st))"
  unfolding open_files_exist_def list_ex_name
  by (induction "openFiles st" arbitrary: st) (auto simp: list_all_iff)

lemma active_file_open_iff:
  "active_file_open st \<longleftrightarrow> (\<forall>a. activeFile st = Some a \<longrightarrow> name a \<in> set (map name (openFiles st)))"
  unfolding active_file_open_def list_ex_name
  by (cases "activeFile st") simp_all

lemma names_supported_iff:
  "names_supported st \<longleftrightarrow> (\<forall>n \<in> set (map name (files st)). split_dot_pop n \<in> set SUPPORTED_EXTENSIONS)"
  by (simp add: names_supported_def list_all_iff)

lemma updateFileContent_names: "map name (files (updateFileContent n c st)) = map name (files st)"
  by (simp add: updateFileContent_def comp_def if_distrib cong: if_cong)

lemma updateFileContent_others:
  "openFiles (updateFileContent n c st) = openFiles st"
  "activeFile (updateFileContent n c st) = activeFile st"
  by (simp_all add: updateFileContent_def)

lemma inv_updateFileContent:
  "state_invariant st \<Longrightarrow> state_invariant (updateFileContent n c st)"
  by (simp add: state_invariant_def open_files_exist_iff active_file_open_iff
      updateFileContent_names updateFileContent_others del: set_map)

lemma sup_updateFileContent:
  "names_supported st \<Longrightarrow> names_supported (updateFileContent n c st)"
  by (simp add: names_supported_iff updateFileContent_names del: set_map)

lemma inv_updateActiveFileContent:
  "state_invariant st \<Longrightarrow> state_invariant (updateActiveFileContent c st)"
  by (cases "activeFile st") (simp_all add: updateActiveFileContent_def inv_updateFileContent)

lemma sup_updateActiveFileContent:
  "names_supported st \<Longrightarrow> names_supported (updateActiveFileContent c st)"
  by (cases "activeFile st") (simp_all add: updateActiveFileContent_def sup_updateFileContent)

lemma setActiveFile_fields:
  "files (setActiveFile f st) = files st"
  "activeFile (setActiveFile f st) = Some f"
  "set (map name (openFiles (setActiveFile f st))) = insert (name f) (set (map name (openFiles st)))"
  by (auto simp add: setActiveFile_def Let_def list_ex_name simp del: set_map)

lemma inv_setActiveFile:
  "state_invariant st \<Longrightarrow> list_ex (\<lambda>g. name g = name f) (files st) \<Longrightarrow> state_invariant (setActiveFile f st)"
  by (simp add: state_invariant_def open_files_exist_iff active_file_open_iff list_ex_name
      setActiveFile_fields del: set_map)

lemma sup_setActiveFile:
  "names_supported st \<Longrightarrow> names_supported (setActiveFile f st)"
  by (simp add: names_supported_iff setActiveFile_fields del: set_map)

lemma findIndex_None: "findIndex P xs = None \<longleftrightarrow> \<not> list_ex P xs"
  by (induction xs) auto

lemma closeFile_absent:
  "\<not> list_ex (\<lambda>g. name g = name f) (openFiles st) \<Longrightarrow> closeFile f st = st"
  by (simp add: closeFile_def findIndex_None [symmetric])

lemma closeFile_files: "files (closeFile f st) = files st"
  by (cases "findIndex (\<lambda>g. name g = name f) (openFiles st)")
     (simp_all add: closeFile_def Let_def)

lemma filter_absent:
  "\<not> list_ex (\<lambda>g. name g = n) xs \<Longrightarrow> filter (\<lambda>g. name g \<noteq> n) xs = xs"
  by (induction xs) auto

lemma closeFile_openFiles:
  "openFiles (closeFile f st) = filter (\<lambda>g. name g \<noteq> name f) (openFiles st)"
proof (cases "list_ex (\<lambda>g. name g = name f) (openFiles st)")
  case False
  then show ?thesis by (simp add: closeFile_absent filter_absent)
next
  case True
  then obtain i where "findIndex (\<lambda>g. name g = name f) (openFiles st) = Some i"
    using findIndex_None [of "\<lambda>g. name g = name f" "openFiles st"] by (cases "findIndex (\<lambda>g. name g = name f) (openFiles st)") auto
  then show ?thesis by (simp add: closeFile_def Let_def)
qed

lemma closeFile_activeFile:
  assumes "list_ex (\<lambda>g. name g = name f) (openFiles st)"
    and "activeFile (closeFile f st) = Some a"
  shows "a \<in> set (filter (\<lambda>g. name g \<noteq> name f) (openFiles st))
   \<or> (activeFile st = Some a \<and> name a \<noteq> name f)"
proof -
  from assms(1) obtain i where i: "findIndex (\<lambda>g. name g = name f) (openFiles st) = Some i"
    using findIndex_None [of "\<lambda>g. name g = name f" "openFiles st"] by (cases "findIndex (\<lambda>g. name g = name f) (openFiles st)") auto
  let ?new = "filter (\<lambda>g. name g \<noteq> name f) (openFiles st)"
  show ?thesis
  proof (cases "map_option name (activeFile st) = Some (name f)")
    case True
    show ?thesis
    proof (cases "length ?new = 0")
      case True
      with \<open>map_option name (activeFile st) = Some (name f)\<close> i assms(2) show ?thesis
        by (auto simp add: closeFile_def Let_def split: if_splits)
    next
      case False
      with \<open>map_option name (activeFile st) = Some (name f)\<close> i assms(2)
      have a: "a = ?new ! min i (length ?new - 1)"
        by (auto simp add: closeFile_def Let_def split: if_splits)
      from False have "0 < length ?new" by simp
      then have "min i (length ?new - 1) < length ?new" by arith
      then have "?new ! min i (length ?new - 1) \<in> set ?new" by (rule nth_mem)
      with a show ?thesis by simp
    qed
  next
    case False
    with i assms(2) have "activeFile st = Some a" by (auto simp add: closeFile_def Let_def split: if_splits)
    with False show ?thesis by simp
  qed
qed

lemma inv_closeFile:
  assumes "state_invariant st" shows "state_invariant (closeFile f st)"
proof (cases "list_ex (\<lambda>g. name g = name f) (openFiles st)")
  case False
  with assms show ?thesis by (simp add: closeFile_absent)
next
  case True
  from assms have o: "open_files_exist st" and a: "active_file_open st"
    by (simp_all add: state_invariant_def)
  have "open_files_exist (closeFile f st)"
    using o by (auto simp: open_files_exist_iff closeFile_openFiles closeFile_files)
  moreover have "active_file_open (closeFile f st)"
    unfolding active_file_open_iff
  proof (intro allI impI)
    fix b assume "activeFile (closeFile f st) = Some b"
    from closeFile_activeFile [OF True this]
    show "name b \<in> set (map name (openFiles (closeFile f st)))"
    proof
      assume "b \<in> set (filter (\<lambda>g. name g \<noteq> name f) (openFiles st))"
      then show ?thesis by (simp add: closeFile_openFiles)
    next
      assume b: "activeFile st = Some b \<and> name b \<noteq> name f"
      with a have "name b \<in> set (map name (openFiles st))" by (simp add: active_file_open_iff del: set_map)
      then obtain g where "g \<in> set (openFiles st)" "name g = name b" by auto
      with b have "g \<in> set (filter (\<lambda>g. name g \<noteq> name f) (openFiles st))" by simp
      with \<open>name g = name b\<close> show ?thesis unfolding closeFile_openFiles set_map by (metis imageI)
    qed
  qed
  ultimately show ?thesis by (simp add: state_invariant_def)
qed

lemma sup_closeFile: "names_supported st \<Longrightarrow> names_supported (closeFile f st)"
  by (simp add: names_supported_iff closeFile_files del: set_map)

lemma closeFile_removes:
  "\<not> list_ex (\<lambda>g. name g = name f) (openFiles (closeFile f st))"
  by (simp add: closeFile_openFiles list_ex_iff)

lemma split_dot_pop_suffix:
  assumes "ends_with fname (CHR ''.'' # ext)" and "CHR ''.'' \<notin> set ext"
  shows "split_dot_pop fname = ext"
proof -
  from assms(1) have "fname = take (length fname - length (CHR ''.'' # ext)) fname @ CHR ''.'' # ext"
    unfolding ends_with_def by (metis append_take_drop_id)
  then obtain pre where "fname = pre @ CHR ''.'' # ext" ..
  then have "rev fname = rev ext @ CHR ''.'' # rev pre" by simp
  moreover have "takeWhile (\<lambda>c. c \<noteq> CHR ''.'') (rev ext @ CHR ''.'' # rev pre) = rev ext"
    using assms(2) by (subst takeWhile_append2) auto
  ultimately show ?thesis by (simp add: split_dot_pop_def)
qed

lemma SUPPORTED_EXTENSIONS_no_dot:
  "ext \<in> set SUPPORTED_EXTENSIONS \<Longrightarrow> CHR ''.'' \<notin> set ext"
  by (auto simp: SUPPORTED_EXTENSIONS_def)

lemma regex_implies_supported:
  assumes "matches_SUPPORTED_EXTENSIONS_REGEX fname"
  shows "split_dot_pop fname \<in> set SUPPORTED_EXTENSIONS"
proof -
  from assms obtain ext where e: "ext \<in> set SUPPORTED_EXTENSIONS"
    and w: "ends_with fname (CHR ''.'' # ext)"
    by (auto simp: matches_SUPPORTED_EXTENSIONS_REGEX_def list_ex_iff)
  from split_dot_pop_suffix [OF w SUPPORTED_EXTENSIONS_no_dot [OF e]] e show ?thesis by simp
qed

lemma cancelCreateFile_fields:
  "files (cancelCreateFile st) = files st"
  "openFiles (cancelCreateFile st) = openFiles st"
  "activeFile (cancelCreateFile st) = activeFile st"
  by (simp_all add: cancelCreateFile_def)

lemma inv_cancelCreateFile: "state_invariant st \<Longrightarrow> state_invariant (cancelCreateFile st)"
  by (simp add: state_invariant_def open_files_exist_iff active_file_open_iff
      cancelCreateFile_fields del: set_map)

lemma sup_cancelCreateFile: "names_supported st \<Longrightarrow> names_supported (cancelCreateFile st)"
  by (simp add: names_supported_def cancelCreateFile_fields)

lemma inv_add_file:
  assumes "state_invariant st"
  shows "state_invariant (setActiveFile f (st\<lparr>files := files st @ [f]\<rparr>))"
proof -
  from assms have "state_invariant (st\<lparr>files := files st @ [f]\<rparr>)"
    by (auto simp add: state_invariant_def open_files_exist_iff active_file_open_iff simp del: set_map)
  then show ?thesis by (rule inv_setActiveFile) (simp add: list_ex_name)
qed

lemma sup_add_file:
  assumes "names_supported st" and "split_dot_pop (name f) \<in> set SUPPORTED_EXTENSIONS"
  shows "names_supported (setActiveFile f (st\<lparr>files := files st @ [f]\<rparr>))"
proof -
  from assms have "names_supported (st\<lparr>files := files st @ [f]\<rparr>)"
    by (simp add: names_supported_def)
  then show ?thesis by (rule sup_setActiveFile)
qed

lemma inv_confirmCreateFile: "state_invariant st \<Longrightarrow> state_invariant (confirmCreateFile st)"
  by (simp add: confirmCreateFile_def Let_def inv_cancelCreateFile inv_add_file)

lemma sup_confirmCreateFile: "names_supported st \<Longrightarrow> names_supported (confirmCreateFile st)"
  by (simp add: confirmCreateFile_def Let_def sup_cancelCreateFile sup_add_file
      regex_implies_supported)

lemma inv_remove_file:
  assumes "state_invariant st" and "\<not> list_ex (\<lambda>g. name g = n) (openFiles st)"
  shows "state_invariant (st\<lparr>files := filter (\<lambda>g. name g \<noteq> n) (files st)\<rparr>)"
proof -
  from assms(1) have o: "set (map name (openFiles st)) \<subseteq> set (map name (files st))"
    and a: "active_file_open st"
    by (simp_all add: state_invariant_def open_files_exist_iff)
  from assms(2) have "n \<notin> set (map name (openFiles st))" by (simp add: list_ex_name)
  have "set (map name (openFiles st)) \<subseteq> set (map name (filter (\<lambda>g. name g \<noteq> n) (files st)))"
  proof
    fix m assume m: "m \<in> set (map name (openFiles st))"
    with o have "m \<in> set (map name (files st))" by blast
    then obtain g where g: "g \<in> set (files st)" "name g = m" by auto
    from m \<open>n \<notin> set (map name (openFiles st))\<close> have "m \<noteq> n" by blast
    with g have "g \<in> set (filter (\<lambda>g. name g \<noteq> n) (files st))" by simp
    with g(2) show "m \<in> set (map name (filter (\<lambda>g. name g \<noteq> n) (files st)))"
      unfolding set_map by (metis imageI)
  qed
  then have "open_files_exist (st\<lparr>files := filter (\<lambda>g. name g \<noteq> n) (files st)\<rparr>)"
    by (simp add: open_files_exist_iff del: set_map)
  moreover from a have "active_file_open (st\<lparr>files := filter (\<lambda>g. name g \<noteq> n) (files st)\<rparr>)"
    by (simp add: active_file_open_iff del: set_map)
  ultimately show ?thesis by (simp add: state_invariant_def)
qed

lemma sup_remove_file:
  "names_supported st \<Longrightarrow> names_supported (st\<lparr>files := filter (\<lambda>g. name g \<noteq> n) (files st)\<rparr>)"
  by (simp add: names_supported_def list_all_iff)

lemma inv_deleteFile: 
  assumes "state_invariant st" shows "state_invariant (deleteFile confirmed f st)"
proof (cases confirmed)
  case False then show ?thesis using assms by (simp add: deleteFile_def)
next
  case True
  show ?thesis
  proof (cases "list_ex (\<lambda>g. name g = name f) (openFiles st)")
    case False
    with True inv_remove_file [OF assms False] show ?thesis by (simp add: deleteFile_def Let_def)
  next
    case o: True
    from inv_remove_file [OF inv_closeFile [OF assms] closeFile_removes] True o
    show ?thesis by (simp add: deleteFile_def Let_def)
  qed
qed

lemma sup_deleteFile: "names_supported st \<Longrightarrow> names_supported (deleteFile confirmed f st)"
  by (simp add: deleteFile_def Let_def sup_remove_file sup_closeFile)

lemma deleteFile_removes:
  "\<not> list_ex (\<lambda>g. name g = name f) (files (deleteFile True f st))"
  "\<not> list_ex (\<lambda>g. name g = name f) (openFiles (deleteFile True f st))"
  by (simp_all add: deleteFile_def Let_def list_ex_iff closeFile_openFiles)

lemma inv_files_grow:
  assumes "state_invariant st" and "openFiles st' = openFiles st"
    and "activeFile st' = activeFile st"
    and "set (map name (files st)) \<subseteq> set (map name (files st'))"
  shows "state_invariant st'"
  using assms
  by (auto simp add: state_invariant_def open_files_exist_iff active_file_open_iff simp del: set_map)

lemma names_filter_append:
  "set (map name (filter (\<lambda>g. name g \<noteq> n) xs @ [f\<lparr>name := n\<rparr>])) = insert n (set (map name xs))"
  by (induction xs) auto

lemma inv_upload_onload:
  assumes "state_invariant st" and "names_supported st"
  shows "state_invariant (upload_onload confirmed n c st)"
proof (cases "list_ex (\<lambda>f. name f = n) (files st)")
  case False
  then show ?thesis using assms(1) by (simp add: upload_onload_def Let_def inv_add_file)
next
  case True
  then have sup: "split_dot_pop n \<in> set SUPPORTED_EXTENSIONS"
    using assms(2) by (simp add: names_supported_iff list_ex_name del: set_map)
  show ?thesis
  proof (cases confirmed)
    case False
    with True assms(1) show ?thesis by (simp add: upload_onload_def Let_def)
  next
    case c: True
    let ?f = "\<lparr>name = n, content = c, language = split_dot_pop n\<rparr>"
    let ?st2 = "st\<lparr>files := filter (\<lambda>f. name f \<noteq> n) (files st) @ [?f]\<rparr>"
    have "set (map name (files ?st2)) = insert n (set (map name (files st)))"
      using names_filter_append [of n "files st" ?f] by simp
    then have "state_invariant ?st2"
      using assms(1) by (intro inv_files_grow [of st ?st2]) auto
    then have "state_invariant (setActiveFile ?f ?st2)"
      by (rule inv_setActiveFile) (simp add: list_ex_name)
    with True c sup show ?thesis by (simp add: upload_onload_def Let_def)
  qed
qed

lemma sup_upload_onload:
  assumes "names_supported st"
  shows "names_supported (upload_onload confirmed n c st)"
proof -
  have r: "names_supported (st\<lparr>files := filter (\<lambda>g. name g \<noteq> n) (files st)\<rparr>)"
    using assms by (rule sup_remove_file)
  have a: "split_dot_pop n \<in> set SUPPORTED_EXTENSIONS \<Longrightarrow> names_supported s \<Longrightarrow>
      names_supported (setActiveFile \<lparr>name = n, content = c, language = split_dot_pop n\<rparr>
        (s\<lparr>files := files s @ [\<lparr>name = n, content = c, language = split_dot_pop n\<rparr>]\<rparr>))" for s
    by (rule sup_add_file) simp_all
  show ?thesis
    using assms r a [of st] a [of "st\<lparr>files := filter (\<lambda>g. name g \<noteq> n) (files st)\<rparr>"]
    by (simp add: upload_onload_def Let_def)
qed

text \<open>
  C9. Every file-management operation (making a file active, closing a tab, creating a
  file, the upload callback, deleting a file, editing content) preserves the state
  invariant: every open file is in the collection by name, and the active file is null or
  one of the open files; after a confirmed delete the file is in neither the collection
  nor the open files. The invariant is carried together with the fact that every name in
  the collection has a supported extension, which the operations preserve too;
  \<^verbatim>\<open>setActiveFile\<close> is given a file of the collection.
\<close>

theorem file_ops_preserve_invariant:
  assumes "state_invariant st" and "names_supported st" and "op_argument_known fop st"
  shows "state_invariant (run_file_op fop st) \<and> names_supported (run_file_op fop st)
    \<and> (\<forall>f. fop = DeleteFile True f \<longrightarrow>
          \<not> list_ex (\<lambda>g. name g = name f) (files (run_file_op fop st))
        \<and> \<not> list_ex (\<lambda>g. name g = name f) (openFiles (run_file_op fop st)))"
proof (cases fop)
  case (SetActiveFile f)
  with assms show ?thesis by (simp add: inv_setActiveFile sup_setActiveFile)
next
  case (CloseFile f)
  with assms show ?thesis by (simp add: inv_closeFile sup_closeFile)
next
  case ConfirmCreateFile
  with assms show ?thesis by (simp add: inv_confirmCreateFile sup_confirmCreateFile)
next
  case (UploadFile confirmed n c)
  with assms show ?thesis by (simp add: inv_upload_onload sup_upload_onload)
next
  case (DeleteFile confirmed f)
  with assms show ?thesis by (simp add: inv_deleteFile sup_deleteFile deleteFile_removes)
next
  case (UpdateFileContent n c)
  with assms show ?thesis by (simp add: inv_updateFileContent sup_updateFileContent)
next
  case (UpdateActiveFileContent c)
  with assms show ?thesis by (simp add: inv_updateActiveFileContent sup_updateActiveFileContent)
qed

theorem file_ops_preserve_invariant_witness:
  "state_invariant demo_state \<and> names_supported demo_state
   \<and> op_argument_known (DeleteFile True (demo_files ! 1)) demo_state
   \<and> state_invariant (run_file_op (DeleteFile True (demo_files ! 1)) demo_state)
   \<and> map name (openFiles (run_file_op (DeleteFile True (demo_files ! 1)) demo_state))
       = [''index.html'', ''script.js'']
   \<and> map name (files (run_file_op (DeleteFile True (demo_files ! 1)) demo_state))
       = [''index.html'', ''script.js'']"
proof -
  have h1: "state_invariant demo_state"
    by (simp add: state_invariant_def open_files_exist_def active_file_open_def
        demo_state_def demo_files_def)
  have h2: "names_supported demo_state"
    by (simp add: names_supported_def demo_state_def demo_files_def split_dot_pop_def
        SUPPORTED_EXTENSIONS_def)
  have h3: "op_argument_known (DeleteFile True (demo_files ! 1)) demo_state"
    by simp
  have h4: "map name (openFiles (run_file_op (DeleteFile True (demo_files ! 1)) demo_state))
       = [''index.html'', ''script.js'']"
    by (simp add: deleteFile_def closeFile_def demo_state_def demo_files_def Let_def)
  have h5: "map name (files (run_file_op (DeleteFile True (demo_files ! 1)) demo_state))
       = [''index.html'', ''script.js'']"
    by (simp add: deleteFile_def closeFile_def demo_state_def demo_files_def Let_def)
  from file_ops_preserve_invariant [OF h1 h2 h3] h1 h2 h3 h4 h5 show ?thesis by simp
qed

text \<open>
  The fact about the extensions is needed for the upload callback only: over a collection
  that holds an open file without a supported extension, a confirmed overwrite removes
  the file before the upload is rejected, and its tab stays open.
\<close>

lemma upload_needs_supported_names:
  "state_invariant legacy_state \<and> \<not> names_supported legacy_state
   \<and> \<not> state_invariant (upload_onload True ''README'' ''new text'' legacy_state)"
  by code_simp

section \<open>Frame of a content update\<close>

lemma updateFileContent_nth:
  "i < length (files st) \<Longrightarrow>
   files (updateFileContent n c st) ! i =
     (if name (files st ! i) = n then (files st ! i)\<lparr>content := c\<rparr> else files st ! i)"
  by (simp add: updateFileContent_def)

text \<open>
  C10. \<^verbatim>\<open>updateFileContent(fileName, newContent)\<close> replaces only the content of the
  files of that name in the collection: the collection keeps its length and order, every
  file of another name is unchanged, a file of that name keeps its name and language,
  and the open files and the active file are not written at all, so they keep the
  former objects with the text from before the edit.
\<close>

theorem updateFileContent_frame:
  "length (files (updateFileContent fname newContent st)) = length (files st)
   \<and> (\<forall>i < length (files st).
        (name (files st ! i) \<noteq> fname \<longrightarrow>
           files (updateFileContent fname newContent st) ! i = files st ! i)
      \<and> (name (files st ! i) = fname \<longrightarrow>
           files (updateFileContent fname newContent st) ! i
             = (files st ! i)\<lparr>content := newContent\<rparr>))
   \<and> openFiles (updateFileContent fname newContent st) = openFiles st
   \<and> activeFile (updateFileContent fname newContent st) = activeFile st"
  by (simp add: updateFileContent_nth updateFileContent_others)
     (simp add: updateFileContent_def)

theorem updateFileContent_frame_witness:
  "(1::nat) < length (files demo_state)
   \<and> name (files demo_state ! 1) = ''style.css''
   \<and> name (files demo_state ! 0) \<noteq> ''style.css''
   \<and> content (files (updateFileContent ''style.css'' ''p { }'' demo_state) ! 1) = ''p { }''
   \<and> files (updateFileContent ''style.css'' ''p { }'' demo_state) ! 0 = files demo_state ! 0
   \<and> content (openFiles (updateFileContent ''style.css'' ''p { }'' demo_state) ! 1)
       = ''body { padding: 1rem; }''"
proof -
  have h: "(1::nat) < length (files demo_state)" "(0::nat) < length (files demo_state)"
    "name (files demo_state ! 1) = ''style.css''"
    "name (files demo_state ! 0) \<noteq> ''style.css''"
    "content (openFiles demo_state ! 1) = ''body { padding: 1rem; }''"
    by (simp_all add: demo_state_def demo_files_def)
  from updateFileContent_frame [of "''style.css''" "''p { }''" demo_state] h
  show ?thesis by simp
qed

section \<open>Console relay\<close>

text \<open>
  C3. A message whose source is the content window of the preview and whose data carries
  the type \<^verbatim>\<open>CONSOLE_LOG\<close> appends exactly one entry, its payload, to the log store
  and changes nothing else; a message from any other source leaves the whole state
  unchanged.
\<close>

theorem onMessage_source_check:
  "(source ev = previewContentWindow st
      \<and> get_property (data ev) ''type'' = JString ''CONSOLE_LOG'' \<longrightarrow>
        onMessage ev st
          = Inr (st\<lparr>consoleLogs := consoleLogs st @ [get_property (data ev) ''payload'']\<rparr>))
   \<and> (source ev \<noteq> previewContentWindow st \<longrightarrow> onMessage ev st = Inr st)"
  by (auto simp add: onMessage_def Let_def get_property_def)

theorem onMessage_source_check_witness:
  "source \<lparr>source = Some 1, data = demo_message\<rparr> = previewContentWindow demo_state
   \<and> get_property (data \<lparr>source = Some 1, data = demo_message\<rparr>) ''type'' = JString ''CONSOLE_LOG''
   \<and> source \<lparr>source = Some 2, data = demo_message\<rparr> \<noteq> previewContentWindow demo_state
   \<and> (case onMessage \<lparr>source = Some 1, data = demo_message\<rparr> demo_state of
         Inr st' \<Rightarrow> consoleLogs st'
           = [JObject [(''type'', JString ''warn''), (''data'', JArray [JString ''x'']),
                       (''timestamp'', JString ''2024-01-01T00:00:00Z'')]]
       | Inl e \<Rightarrow> False)
   \<and> onMessage \<lparr>source = Some 2, data = demo_message\<rparr> demo_state = Inr demo_state"
proof -
  have h1: "source \<lparr>source = Some 1, data = demo_message\<rparr> = previewContentWindow demo_state"
    by (simp add: demo_state_def)
  have h2: "get_property (data \<lparr>source = Some 1, data = demo_message\<rparr>) ''type'' = JString ''CONSOLE_LOG''"
    by (simp add: demo_message_def postLog_def get_property_def)
  have h3: "source \<lparr>source = Some 2, data = demo_message\<rparr> \<noteq> previewContentWindow demo_state"
    by (simp add: demo_state_def)
  have p: "get_property demo_message ''payload''
      = JObject [(''type'', JString ''warn''), (''data'', JArray [JString ''x'']),
                       (''timestamp'', JString ''2024-01-01T00:00:00Z'')]"
    by (simp add: demo_message_def postLog_def get_property_def serialize_arg_def)
  have c: "consoleLogs demo_state = []" by (simp add: demo_state_def)
  from onMessage_source_check [of "\<lparr>source = Some 1, data = demo_message\<rparr>" demo_state]
       onMessage_source_check [of "\<lparr>source = Some 2, data = demo_message\<rparr>" demo_state]
       h1 h2 h3 p c
  show ?thesis by simp
qed

text \<open>
  The object the script builds for an error does not have the key \<open>isError\<close>.
\<close>

theorem serialize_arg_error_counterexample:
  "serialize_arg (\<lambda>v. Some v) (JErrorObj (JString ''boom'') (JString ''at f''))
     \<noteq> JObject [(''isError'', JBool True), (''message'', JString ''boom''), (''stack'', JString ''at f'')]"
  by (simp add: serialize_arg_def)

text \<open>
  C7 (amended). An argument that is an instance of \<^verbatim>\<open>Error\<close> is serialised to exactly
  the object \<^verbatim>\<open>{ __error: true, message, stack }\<close> with the message and the stack of
  that error: the marker key is \<^verbatim>\<open>__error\<close>.
\<close>

theorem serialize_arg_error:
  "serialize_arg json_roundtrip (JErrorObj message stack)
     = JObject [(''__error'', JBool True), (''message'', message), (''stack'', stack)]"
  by (simp add: serialize_arg_def)

section \<open>Preview rebuild and the log store\<close>

text \<open>
  After an edit of the script and the debounced rebuild the preview document is a new
  one, and the log store still holds the entry of the previous run.
\<close>

theorem rebuild_clears_logs_counterexample:
  "iframeSrcDoc (iframeSrcDoc_emit []
      (updateFileContent ''script.js'' ''console.log(2);'' (demo_state\<lparr>consoleLogs := [JString ''old'']\<rparr>)))
     \<noteq> iframeSrcDoc (demo_state\<lparr>consoleLogs := [JString ''old'']\<rparr>)
   \<and> consoleLogs (iframeSrcDoc_emit []
      (updateFileContent ''script.js'' ''console.log(2);'' (demo_state\<lparr>consoleLogs := [JString ''old'']\<rparr>)))
     = [JString ''old'']"
  by (simp add: iframeSrcDoc_emit_def updateFileContent_def demo_state_def demo_files_def
      buildIframeContent_def)

text \<open>
  C8 (amended). The log store is emptied by the explicit refresh
  (\<^verbatim>\<open>forcePreviewRefresh\<close>); the debounced rebuild that follows a change of a file's
  content recomputes the preview document from the collection and leaves the log store
  as it was.
\<close>

theorem logs_cleared_on_refresh_only:
  "consoleLogs (forcePreviewRefresh st) = []
   \<and> consoleLogs (iframeSrcDoc_emit script (updateFileContent fname newContent st)) = consoleLogs st
   \<and> iframeSrcDoc (iframeSrcDoc_emit script (updateFileContent fname newContent st))
       = buildIframeContent script (files (updateFileContent fname newContent st))"
  by (simp add: forcePreviewRefresh_def iframeSrcDoc_emit_def updateFileContent_def)

section \<open>Animated patch applier\<close>




text \<open>When no call of the widget throws, the call settles by resolving.\<close>

lemma typeTextAnimated_no_throw:
  "\<forall>i. type_throws env i = None \<Longrightarrow> \<exists>b'. typeTextAnimated env i tx b = Resolved b'"
  by (induction tx arbitrary: i b) (simp_all add: Let_def)

lemma animation_steps_no_throw:
  assumes "no_throw env"
  shows "\<exists>b'. animation_steps env newContent b = Resolved b'"
proof (cases "getValue b = newContent")
  case True
  then show ?thesis by (simp add: animation_steps_def)
next
  case False
  obtain p s t where d: "diff (getValue b) newContent = (p, s, t)" by (cases "diff (getValue b) newContent")
  from assms have "\<forall>i. type_throws env i = None" by (simp add: no_throw_def)
  from typeTextAnimated_no_throw [OF this]
  show ?thesis using False d assms
    by (simp add: animation_steps_def Let_def no_throw_def)
qed

lemma applyChangesWithAnimation_no_throw:
  assumes "no_throw env"
  shows "\<exists>ec'. applyChangesWithAnimation env newContent ec = Resolved ec'"
proof (cases "editor ec")
  case None
  then show ?thesis by (simp add: applyChangesWithAnimation_def)
next
  case (Some b)
  from animation_steps_no_throw [OF assms] obtain b' where
    "animation_steps env newContent b = Resolved b'" by blast
  with Some show ?thesis by (simp add: applyChangesWithAnimation_def Let_def)
qed







text \<open>
  The example of the spec: "hello world" to "hello there" keeps the prefix "hello ",
  types "there", and ends with the target text without the safeguard of the
  \<^verbatim>\<open>finally\<close> block.
\<close>

lemma diff_hello: "diff ''hello world'' ''hello there'' = (6, 0, ''there'')"
  by code_simp

lemma quiet_run:
  "applyChangesWithAnimation quiet_anim ''hello there'' demo_editor
    = Resolved
        \<lparr>editor = Some \<lparr>buf_text = ''hello there'', caret = 11, buf_eol = LF, default_eol = LF\<rparr>, isAnimating = False\<rparr>"
  by code_simp

text \<open>
  A settled call that rejects does so with the value thrown by the select, reveal or
  delete step or by the typing of the first character, and each of these throws, once
  the texts differ and the steps before it have returned, makes the call reject.
\<close>

lemma typeTextAnimated_rejected_iff:
  "typeTextAnimated env i tx b = Rejected e b'
     \<longleftrightarrow> i = 0 \<and> tx \<noteq> [] \<and> type_throws env 0 = Some e \<and> b' = b"
proof (induction tx arbitrary: i b)
  case Nil
  then show ?case by simp
next
  case (Cons c cs)
  show ?case
  proof (cases "type_throws env i")
    case None
    then show ?thesis using Cons.IH by (auto simp add: Let_def)
  next
    case (Some e0)
    then show ?thesis by (cases "i = 0") auto
  qed
qed

lemma animation_steps_rejected_iff:
  "(\<exists>b'. animation_steps env newContent b = Rejected e b') \<longleftrightarrow>
     getValue b \<noteq> newContent
     \<and> (select_throws env = Some e
        \<or> select_throws env = None \<and> reveal_throws env = Some e
        \<or> select_throws env = None \<and> reveal_throws env = None \<and> delete_throws env = Some e
        \<or> select_throws env = None \<and> reveal_throws env = None \<and> delete_throws env = None
            \<and> snd (snd (diff (getValue b) newContent)) \<noteq> [] \<and> type_throws env 0 = Some e)"
  by (cases "diff (getValue b) newContent")
     (auto simp add: animation_steps_def Let_def typeTextAnimated_rejected_iff
        split: option.splits)

lemma applyChangesWithAnimation_rejected_iff:
  "(\<exists>ec'. applyChangesWithAnimation env newContent ec = Rejected e ec') \<longleftrightarrow>
     (\<exists>b. editor ec = Some b \<and> getValue b \<noteq> newContent
        \<and> (select_throws env = Some e
           \<or> select_throws env = None \<and> reveal_throws env = Some e
           \<or> select_throws env = None \<and> reveal_throws env = None \<and> delete_throws env = Some e
           \<or> select_throws env = None \<and> reveal_throws env = None \<and> delete_throws env = None
               \<and> snd (snd (diff (getValue b) newContent)) \<noteq> [] \<and> type_throws env 0 = Some e))"
proof (cases "editor ec")
  case None
  then show ?thesis by (simp add: applyChangesWithAnimation_def)
next
  case (Some b)
  have "(\<exists>ec'. applyChangesWithAnimation env newContent ec = Rejected e ec')
      \<longleftrightarrow> (\<exists>b'. animation_steps env newContent b = Rejected e b')"
    using Some by (auto simp add: applyChangesWithAnimation_def Let_def split: promise.splits)
  then show ?thesis using Some by (simp add: animation_steps_rejected_iff)
qed

text \<open>
  When nothing throws, nobody else touches the buffer, the buffer uses \<^verbatim>\<open>\n\<close> and the
  target holds no carriage return, the delete and the typing alone produce the target
  text: this is where the correctness of the diff is used.
\<close>

lemma inserted_text_empty: "inserted_text e [] = []"
  by (simp add: inserted_text_def)

lemma inserted_text_char: "c \<noteq> CHR 0x0D \<Longrightarrow> inserted_text LF [c] = [c]"
  by (simp add: inserted_text_def)

lemma typeTextAnimated_quiet:
  assumes "\<forall>i. type_throws env i = None" and "\<forall>i b. type_pause env i b = b"
    and "caret b \<le> length (buf_text b)" and "buf_eol b = LF" and "CHR 0x0D \<notin> set tx"
  shows "typeTextAnimated env i tx b
    = Resolved (b\<lparr>buf_text := take (caret b) (buf_text b) @ tx @ drop (caret b) (buf_text b),
                  caret := caret b + length tx\<rparr>)"
  using assms(3,4,5)
proof (induction tx arbitrary: i b)
  case Nil
  then show ?case by simp
next
  case (Cons c cs)
  let ?b1 = "executeEdits (caret b) (caret b) [c] b"
  from Cons.prems have "c \<noteq> CHR 0x0D" by auto
  then have ins: "inserted_text LF [c] = [c]"
    by (rule inserted_text_char)
  have b1: "buf_text ?b1 = take (caret b) (buf_text b) @ c # drop (caret b) (buf_text b)"
    "caret ?b1 = Suc (caret b)" "buf_eol ?b1 = LF"
    using Cons.prems by (simp_all add: executeEdits_def Let_def ins)
  with Cons.prems have le: "caret ?b1 \<le> length (buf_text ?b1)" by simp
  have e: "?b1 = b\<lparr>buf_text := take (caret b) (buf_text b) @ c # drop (caret b) (buf_text b),
                    caret := Suc (caret b)\<rparr>"
    using Cons.prems by (simp add: executeEdits_def Let_def ins)
  from Cons.prems have cs: "CHR 0x0D \<notin> set cs" by simp
  have t: "take (Suc (caret b)) (take (caret b) (buf_text b) @ c # drop (caret b) (buf_text b))
      = take (caret b) (buf_text b) @ [c]"
    using Cons.prems by simp
  have d: "drop (Suc (caret b)) (take (caret b) (buf_text b) @ c # drop (caret b) (buf_text b))
      = drop (caret b) (buf_text b)"
    using Cons.prems by simp
  show ?case
    using Cons.IH [OF le b1(3) cs, of "Suc i"] assms(1,2) b1 t d
    by (simp add: Let_def getPosition_def e)
qed

lemma animation_steps_quiet:
  assumes "no_throw env" and "\<forall>b. select_pause env b = b" and "\<forall>b. delete_pause env b = b"
    and "\<forall>i b. type_pause env i b = b"
    and "buf_eol b = LF" and "CHR 0x0D \<notin> set newContent"
  shows "\<exists>b'. animation_steps env newContent b = Resolved b' \<and> getValue b' = newContent"
proof (cases "getValue b = newContent")
  case True
  then show ?thesis by (simp add: animation_steps_def)
next
  case False
  let ?old = "buf_text b"
  obtain p s t where d: "diff ?old newContent = (p, s, t)" by (cases "diff ?old newContent")
  from diff_correct [OF d] have ps: "p + s \<le> min (length ?old) (length newContent)"
    and r: "replace_middle ?old p s t = newContent" by simp_all
  from d have "t = substring newContent p (length newContent - s)"
    by (auto simp add: diff_def Let_def)
  then have "set t \<subseteq> set newContent"
    by (auto simp add: substring_def Let_def dest: in_set_takeD in_set_dropD)
  with assms(6) have nocr: "CHR 0x0D \<notin> set t" by auto
  let ?b3 = "executeEdits (getPositionAt b p) (getPositionAt b (length ?old - s)) []
      (setSelection (getPositionAt b p) (getPositionAt b (length ?old - s)) b)"
  from ps have pp: "getPositionAt b p = p" "getPositionAt b (length ?old - s) = length ?old - s"
    by (simp_all add: getPositionAt_def)
  from ps have le: "p \<le> length ?old - s" by arith
  have b3: "buf_text ?b3 = take p ?old @ drop (length ?old - s) ?old" "caret ?b3 = p"
    "buf_eol ?b3 = LF"
    using le assms(5)
    by (simp_all add: pp executeEdits_def setSelection_def Let_def min_def max_def
        inserted_text_empty)
  from ps have lp: "p \<le> length ?old" by simp
  have c: "caret ?b3 \<le> length (buf_text ?b3)" using lp by (simp add: b3)
  from assms(1) have nt: "\<forall>i. type_throws env i = None" by (simp add: no_throw_def)
  have "typeTextAnimated env 0 t ?b3
      = Resolved (?b3\<lparr>buf_text := take p ?old @ t @ drop (length ?old - s) ?old,
                        caret := p + length t\<rparr>)"
    using typeTextAnimated_quiet [OF nt assms(4) c b3(3) nocr, of 0] lp by (simp add: b3)
  then show ?thesis
    using False d assms(1,2,3) r
    by (simp add: animation_steps_def Let_def no_throw_def getValue_def replace_middle_def)
qed

section \<open>Edit orchestrator\<close>

lemma ai_call_flags: "ai_call env (askAI_start st) = ai_call env st"
  by (simp add: ai_call_def askAI_start_def)

lemma askAI_start_fields:
  "files (askAI_start st) = files st"
  "openFiles (askAI_start st) = openFiles st"
  "activeFile (askAI_start st) = activeFile st"
  "editorComponent (askAI_start st) = editorComponent st"
  "animated (askAI_start st) = animated st"
  "aiPrompt (askAI_start st) = aiPrompt st"
  "aiExplanation (askAI_start st) = []"
  by (simp_all add: askAI_start_def)

lemma askAI_applying_fields:
  "files (askAI_applying st) = files st"
  "editorComponent (askAI_applying st) = editorComponent st"
  "animated (askAI_applying st) = animated st"
  by (simp_all add: askAI_applying_def)

text \<open>
  C4. When the call of the AI service throws, \<^verbatim>\<open>askAI\<close> resolves with the file
  collection, the open files, the active file and the editor untouched, no animation
  started, and one error message shown: the message of the thrown error (the fixed
  fallback text when the thrown value is not an error); no explanation is shown.
\<close>

theorem askAI_service_error:
  assumes "trim (aiPrompt st) \<noteq> []" and "ai_call env st = Inl err"
  shows "\<exists>st'. askAI env st = Resolved st'
    \<and> files st' = files st \<and> openFiles st' = openFiles st \<and> activeFile st' = activeFile st
    \<and> editorComponent st' = editorComponent st \<and> animated st' = animated st
    \<and> aiError st' = (case err of JsError message \<Rightarrow> message | NonError \<Rightarrow> AI_ERROR_FALLBACK)
    \<and> aiExplanation st' = [] \<and> isAiLoading st' = False \<and> isAiApplyingEdits st' = False"
  using assms
  by (simp add: askAI_def Let_def ai_call_flags askAI_catch_def askAI_finally_def
      askAI_start_fields)

theorem askAI_service_error_witness:
  "trim (aiPrompt demo_state) \<noteq> [] \<and> ai_call failing_service demo_state = Inl (JsError ''no key'')
   \<and> (\<exists>st'. askAI failing_service demo_state = Resolved st'
         \<and> files st' = demo_files \<and> aiError st' = ''no key'')"
proof -
  have h1: "trim (aiPrompt demo_state) \<noteq> []" by code_simp
  have h2: "ai_call failing_service demo_state = Inl (JsError ''no key'')"
    by (simp add: ai_call_def failing_service_def)
  have f: "files demo_state = demo_files" by (simp add: demo_state_def)
  from askAI_service_error [OF h1 h2] h1 h2 f show ?thesis by auto
qed


lemma setActiveFile_keeps:
  "editorComponent (setActiveFile f st) = editorComponent st"
  "animated (setActiveFile f st) = animated st"
  by (simp_all add: setActiveFile_def Let_def)


lemma find_map_preserved:
  "(\<And>x. P (g x) = P x) \<Longrightarrow> find P (map g xs) = map_option g (find P xs)"
  by (induction xs) simp_all

lemma find_in_set: "find P xs = Some x \<Longrightarrow> x \<in> set xs \<and> P x"
  by (induction xs) (auto split: if_splits)

lemma find_by_name_distinct:
  assumes "distinct (map name fs)" and "g \<in> set fs"
  shows "find (\<lambda>f. name f = name g) fs = Some g"
  using assms
proof (induction fs)
  case Nil
  then show ?case by simp
next
  case (Cons a fs)
  show ?case
  proof (cases "a = g")
    case True
    then show ?thesis by simp
  next
    case False
    with Cons.prems have g: "g \<in> set fs" by simp
    then have "name g \<in> set (map name fs)" by simp
    with Cons.prems have "name a \<noteq> name g" by auto
    with Cons.IH g Cons.prems show ?thesis by simp
  qed
qed

lemma update_by_name_distinct:
  assumes "distinct (map name fs)" and "g \<in> set fs"
  shows "map (\<lambda>f. if name f = name g then f\<lparr>content := c\<rparr> else f) fs
       = map (\<lambda>f. if f = g then f\<lparr>content := c\<rparr> else f) fs"
proof (rule map_cong [OF refl])
  fix f assume f: "f \<in> set fs"
  from assms(1) have "inj_on name (set fs)" by (simp add: distinct_map)
  with f assms(2) have "name f = name g \<longleftrightarrow> f = g" by (auto dest: inj_onD)
  then show "(if name f = name g then f\<lparr>content := c\<rparr> else f) = (if f = g then f\<lparr>content := c\<rparr> else f)"
    by simp
qed

lemma apply_diffs_single:
  assumes "find (\<lambda>f. name f = fileName d) (files st) = Some f"
    and "no_throw (animation env k)"
  shows "\<exists>st'. apply_diffs env k [d] st = Resolved st'
    \<and> files st' = files (updateFileContent (fileName d) (after d) st)
    \<and> animated st' = animated st @
         (case editor_switch env k (editorComponent st) of None \<Rightarrow> [] | Some ec \<Rightarrow> [fileName d])"
proof (cases "editor_switch env k (editorComponent st)")
  case None
  with assms(1) show ?thesis
    by (simp add: Let_def setActiveFile_keeps updateFileContent_def setActiveFile_fields)
next
  case (Some ec)
  from applyChangesWithAnimation_no_throw [OF assms(2), of "after d" ec]
  obtain ec' where "applyChangesWithAnimation (animation env k) (after d) ec = Resolved ec'"
    by blast
  with Some assms(1) show ?thesis
    by (simp add: Let_def setActiveFile_keeps updateFileContent_def setActiveFile_fields)
qed

lemma build_diffs_css_only:
  assumes "html response = None" and "js response = None" and "css response = Some c"
    and "c \<noteq> []" and "find (\<lambda>f. language f = ''css'') fs = Some cf" and "c \<noteq> content cf"
  shows "build_diffs response fs = [\<lparr>fileName = name cf, after = c\<rparr>]"
  using assms by (simp add: build_diffs_def queue_entry_def content_or_empty_def name_or_def)

text \<open>
  A proposal whose only patch is the empty css text, which differs from the current css
  text, is not applied: the collection is unchanged and the explanation is shown with
  the note that no change was proposed.
\<close>

theorem askAI_css_only_counterexample:
  "css (css_patch\<lparr>css := Some []\<rparr>) = Some []
   \<and> html (css_patch\<lparr>css := Some []\<rparr>) = None \<and> js (css_patch\<lparr>css := Some []\<rparr>) = None
   \<and> ai_call empty_css_service demo_state = Inr (css_patch\<lparr>css := Some []\<rparr>)
   \<and> find (\<lambda>f. language f = ''css'') (files demo_state) = Some (demo_files ! 1)
   \<and> content (demo_files ! 1) \<noteq> []
   \<and> askAI empty_css_service demo_state
       = Resolved (demo_state\<lparr>aiExplanation := ''more padding'' @ NO_CHANGES_NOTE\<rparr>)
   \<and> files (demo_state\<lparr>aiExplanation := ''more padding'' @ NO_CHANGES_NOTE\<rparr>) = demo_files
   \<and> animated (demo_state\<lparr>aiExplanation := ''more padding'' @ NO_CHANGES_NOTE\<rparr>) = []"
  by code_simp

text \<open>
  C5 (amended). For a proposal whose only patch is a non-empty css text that differs
  from the content of the css file, with the file names of the collection distinct and
  no step of the animation throwing, \<^verbatim>\<open>askAI\<close> resolves; the css file is the only
  file of the collection that changes, its content becomes the css field of the
  proposal, the html and js files are the same as before, and the css file is the only
  target of an animated application (none when no editor is mounted).
\<close>

theorem askAI_css_only:
  assumes prompt: "trim (aiPrompt st) \<noteq> []"
    and answer: "ai_call env st = Inr response"
    and only: "html response = None" "js response = None" "css response = Some c"
    and nonempty: "c \<noteq> []"
    and cssfile: "find (\<lambda>f. language f = ''css'') (files st) = Some cf"
    and differs: "c \<noteq> content cf"
    and names: "distinct (map name (files st))"
    and quiet: "no_throw (animation env 0)"
  shows "\<exists>st'. askAI env st = Resolved st'
    \<and> files st' = map (\<lambda>f. if f = cf then f\<lparr>content := c\<rparr> else f) (files st)
    \<and> find (\<lambda>f. language f = ''css'') (files st') = Some (cf\<lparr>content := c\<rparr>)
    \<and> find (\<lambda>f. language f = ''html'') (files st') = find (\<lambda>f. language f = ''html'') (files st)
    \<and> find (\<lambda>f. language f = ''js'') (files st') = find (\<lambda>f. language f = ''js'') (files st)
    \<and> animated st' = animated st @
         (case editor_switch env 0 (editorComponent st) of None \<Rightarrow> [] | Some ec \<Rightarrow> [name cf])"
proof -
  let ?d = "\<lparr>fileName = name cf, after = c\<rparr>"
  let ?g = "\<lambda>f. if f = cf then f\<lparr>content := c\<rparr> else f"
  let ?st0 = "askAI_start st"
  let ?st0' = "askAI_applying ?st0"
  from find_in_set [OF cssfile] have cf: "cf \<in> set (files st)" and lang: "language cf = ''css''"
    by simp_all
  have diffs: "build_diffs response (files ?st0) = [?d]"
    using build_diffs_css_only [OF only nonempty cssfile differs]
    by (simp add: askAI_start_fields)
  have "find (\<lambda>f. name f = fileName ?d) (files ?st0') = Some cf"
    using find_by_name_distinct [OF names cf]
    by (simp add: askAI_start_fields askAI_applying_fields)
  from apply_diffs_single [OF this quiet]
  obtain st1 where run: "apply_diffs env 0 [?d] ?st0' = Resolved st1"
    and f1': "files st1 = files (updateFileContent (fileName ?d) (after ?d) ?st0')"
    and a1': "animated st1 = animated ?st0' @
         (case editor_switch env 0 (editorComponent ?st0') of None \<Rightarrow> []
          | Some ec \<Rightarrow> [fileName ?d])"
    by blast
  from f1' have f1: "files st1 = files (updateFileContent (name cf) c st)"
    by (simp add: updateFileContent_def askAI_start_fields askAI_applying_fields)
  from a1' have a1: "animated st1 = animated st @
         (case editor_switch env 0 (editorComponent st) of None \<Rightarrow> [] | Some ec \<Rightarrow> [name cf])"
    by (simp add: askAI_start_fields askAI_applying_fields split: option.splits)
  have files: "files st1 = map ?g (files st)"
    using f1 update_by_name_distinct [OF names cf, of c] by (simp add: updateFileContent_def)
  have res: "askAI env st = Resolved (askAI_finally (st1\<lparr>aiExplanation := explanation response\<rparr>))"
    using prompt answer diffs run by (simp add: askAI_def Let_def ai_call_flags)
  have l: "language (?g x) = language x" for x by simp
  have fc: "find (\<lambda>f. language f = ''css'') (map ?g (files st)) = Some (cf\<lparr>content := c\<rparr>)"
    using find_map_preserved [of "\<lambda>f. language f = ''css''" ?g "files st"] l cssfile by simp
  have other: "find (\<lambda>f. language f = lg) (map ?g (files st)) = find (\<lambda>f. language f = lg) (files st)"
    if "lg \<noteq> ''css''" for lg
  proof (cases "find (\<lambda>f. language f = lg) (files st)")
    case None
    then show ?thesis
      using find_map_preserved [of "\<lambda>f. language f = lg" ?g "files st"] l by simp
  next
    case (Some h)
    from find_in_set [OF Some] that lang have "h \<noteq> cf" by auto
    with Some show ?thesis
      using find_map_preserved [of "\<lambda>f. language f = lg" ?g "files st"] l by simp
  qed
  show ?thesis
    using res files fc other [of "''html''"] other [of "''js''"] a1
    by (simp add: askAI_finally_def)
qed

theorem askAI_css_only_witness:
  "trim (aiPrompt demo_state) \<noteq> []
   \<and> ai_call css_only_service demo_state = Inr css_patch
   \<and> html css_patch = None \<and> js css_patch = None
   \<and> css css_patch = Some ''body { padding: 2rem; }''
   \<and> find (\<lambda>f. language f = ''css'') (files demo_state) = Some (demo_files ! 1)
   \<and> distinct (map name (files demo_state))
   \<and> no_throw (animation css_only_service 0)
   \<and> (\<exists>st'. askAI css_only_service demo_state = Resolved st'
         \<and> map content (files st')
             = [''<h1>Hi</h1>'', ''body { padding: 2rem; }'', ''console.log(1);'']
         \<and> animated st' = [''style.css''])"
proof -
  have h1: "trim (aiPrompt demo_state) \<noteq> []" by code_simp
  have h2: "ai_call css_only_service demo_state = Inr css_patch" by code_simp
  have h3: "html css_patch = None" "js css_patch = None"
    "css css_patch = Some ''body { padding: 2rem; }''"
    by (simp_all add: css_patch_def)
  have h4: "''body { padding: 2rem; }'' \<noteq> []" by simp
  have h5: "find (\<lambda>f. language f = ''css'') (files demo_state) = Some (demo_files ! 1)"
    by code_simp
  have h6: "''body { padding: 2rem; }'' \<noteq> content (demo_files ! 1)"
    by code_simp
  have h7: "distinct (map name (files demo_state))"
    by code_simp
  have h8: "no_throw (animation css_only_service 0)"
    by (simp add: no_throw_def css_only_service_def quiet_anim_def)
  have e: "editor_switch css_only_service 0 (editorComponent demo_state) = Some css_editor"
    by code_simp
  have f: "map content (map (\<lambda>f. if f = demo_files ! 1
                then f\<lparr>content := ''body { padding: 2rem; }''\<rparr> else f) (files demo_state))
      = [''<h1>Hi</h1>'', ''body { padding: 2rem; }'', ''console.log(1);'']"
    by code_simp
  have a: "animated demo_state @ [name (demo_files ! 1)] = [''style.css'']"
    by code_simp
  from askAI_css_only [OF h1 h2 h3 h4 h5 h6 h7 h8]
  obtain st' where all: "askAI css_only_service demo_state = Resolved st'
    \<and> files st' = map (\<lambda>f. if f = demo_files ! 1
                then f\<lparr>content := ''body { padding: 2rem; }''\<rparr> else f) (files demo_state)
    \<and> find (\<lambda>f. language f = ''css'') (files st')
        = Some ((demo_files ! 1)\<lparr>content := ''body { padding: 2rem; }''\<rparr>)
    \<and> find (\<lambda>f. language f = ''html'') (files st') = find (\<lambda>f. language f = ''html'') (files demo_state)
    \<and> find (\<lambda>f. language f = ''js'') (files st') = find (\<lambda>f. language f = ''js'') (files demo_state)
    \<and> animated st' = animated demo_state @
         (case editor_switch css_only_service 0 (editorComponent demo_state) of
            None \<Rightarrow> [] | Some ec \<Rightarrow> [name (demo_files ! 1)])" ..
  from all have r: "askAI css_only_service demo_state = Resolved st'" by (rule conjunct1)
  from all have fs: "files st' = map (\<lambda>f. if f = demo_files ! 1
                then f\<lparr>content := ''body { padding: 2rem; }''\<rparr> else f) (files demo_state)"
    by (rule conjunct2 [THEN conjunct1])
  from all have "animated st' = animated demo_state @
         (case editor_switch css_only_service 0 (editorComponent demo_state) of
            None \<Rightarrow> [] | Some ec \<Rightarrow> [name (demo_files ! 1)])"
    by (rule conjunct2 [THEN conjunct2, THEN conjunct2, THEN conjunct2, THEN conjunct2])
  then have an: "animated st' = [''style.css'']"
    unfolding e using a by simp
  have fc: "map content (files st')
             = [''<h1>Hi</h1>'', ''body { padding: 2rem; }'', ''console.log(1);'']"
    unfolding fs by (rule f)
  have "\<exists>st'. askAI css_only_service demo_state = Resolved st'
         \<and> map content (files st')
             = [''<h1>Hi</h1>'', ''body { padding: 2rem; }'', ''console.log(1);'']
         \<and> animated st' = [''style.css'']"
    using r fc an by (intro exI [of _ st'] conjI)
  with h1 h2 h3 h5 h7 h8 show ?thesis by (intro conjI)
qed







end
